theory Spec2Isabelle
  imports Complex_Main
begin

section \<open>Values and strings of the host language\<close>

text \<open>
  The server receives its data as parsed JSON.  A value is \<open>undefined\<close> (a missing
  property), \<open>null\<close>, a boolean, a number, a string, an array or an object.  A number
  is the rational that its JSON text denotes; an object is the list of its own
  properties.  A string is a list of code units below 256.
\<close>

datatype jsval =
    JUndefined
  | JNull
  | JBool bool
  | JNum rat
  | JStr string
  | JArr "jsval list"
  | JObj "(string \<times> jsval) list"

datatype js_error = TypeError

text \<open>Truthiness: \<open>undefined\<close>, \<open>null\<close>, \<open>false\<close>, \<open>0\<close> and \<open>""\<close> are falsy.\<close>

fun truthy :: "jsval \<Rightarrow> bool" where
  "truthy JUndefined = False"
| "truthy JNull = False"
| "truthy (JBool b) = b"
| "truthy (JNum n) = (n \<noteq> 0)"
| "truthy (JStr s) = (s \<noteq> [])"
| "truthy (JArr xs) = True"
| "truthy (JObj fs) = True"

fun nullish :: "jsval \<Rightarrow> bool" where
  "nullish JUndefined = True"
| "nullish JNull = True"
| "nullish v = False"

text \<open>\<open>a || b\<close>: the left operand when it is truthy, the right one otherwise.\<close>

definition js_or :: "jsval \<Rightarrow> jsval \<Rightarrow> jsval" where
  "js_or a b = (if truthy a then a else b)"

text \<open>
  \<open>b.k\<close> for one of the property names this program reads (\<open>title\<close>, \<open>name\<close>,
  \<open>address\<close>, \<open>street_address\<close>, \<open>phone\<close>, \<open>website\<close>, \<open>url\<close>, \<open>rating\<close>,
  \<open>reviews\<close>, \<open>review_count\<close> of a record; \<open>keyword\<close>, \<open>country\<close>, \<open>city\<close>,
  \<open>engine\<close> of a request body): an object gives its own property or \<open>undefined\<close>;
  booleans, numbers, strings and arrays have none of these names.  Reading a property
  of \<open>undefined\<close> or \<open>null\<close> raises; the callers test \<open>nullish\<close> first.
\<close>

fun field :: "jsval \<Rightarrow> string \<Rightarrow> jsval" where
  "field (JObj fs) k = (case map_of fs k of None \<Rightarrow> JUndefined | Some v \<Rightarrow> v)"
| "field v k = JUndefined"

subsection \<open>Conversion to a string\<close>

fun digits :: "nat \<Rightarrow> string" where
  "digits n = (if n < 10 then [''0123456789'' ! n]
               else digits (n div 10) @ [''0123456789'' ! (n mod 10)])"

declare digits.simps [simp del]

text \<open>
  The decimal digits of a fraction \<open>0 \<le> f < 1\<close>, up to a number of digits.  A double
  has 17 significant digits at most.
\<close>

fun frac_digits :: "nat \<Rightarrow> rat \<Rightarrow> string" where
  "frac_digits 0 f = []"
| "frac_digits (Suc n) f =
     (if f = 0 then []
      else (''0123456789'' ! nat \<lfloor>f * 10\<rfloor>) # frac_digits n (f * 10 - of_int \<lfloor>f * 10\<rfloor>))"

text \<open>
  \<open>n.toString()\<close> for a number: the integer part and, when the number is not an
  integer, a dot and the digits of the fraction.  This is what the host language
  prints for the numbers of a listing: integers below \<open>2^53\<close> and decimals of at most
  15 significant digits that are not below \<open>10^-6\<close>, which a double holds exactly
  enough to print back.
\<close>

definition num_to_string :: "rat \<Rightarrow> string" where
  "num_to_string q =
     (let a = \<bar>q\<bar>; i = \<lfloor>a\<rfloor>; f = a - of_int i
      in (if q < 0 then ''-'' else []) @ digits (nat i)
         @ (if f = 0 then [] else ''.'' @ frac_digits 17 f))"

fun join :: "string \<Rightarrow> string list \<Rightarrow> string" where
  "join sep [] = []"
| "join sep [x] = x"
| "join sep (x # y # ys) = x @ sep @ join sep (y # ys)"

fun sequence_err :: "('e + 'a) list \<Rightarrow> 'e + 'a list" where
  "sequence_err [] = Inr []"
| "sequence_err (Inl e # rs) = Inl e"
| "sequence_err (Inr x # rs) = (case sequence_err rs of Inl e \<Rightarrow> Inl e | Inr xs \<Rightarrow> Inr (x # xs))"

text \<open>
  \<open>v.toString()\<close> for a value that is neither \<open>undefined\<close> nor \<open>null\<close>.  An array joins
  its elements with a comma, \<open>undefined\<close> and \<open>null\<close> elements giving the empty string.
  A parsed object is \<open>[object Object]\<close>, unless it has an own property \<open>toString\<close>:
  parsed JSON holds no function, so the call raises.
\<close>

fun to_string :: "jsval \<Rightarrow> js_error + string" where
  "to_string JUndefined = Inr ''undefined''"
| "to_string JNull = Inr ''null''"
| "to_string (JBool b) = Inr (if b then ''true'' else ''false'')"
| "to_string (JNum n) = Inr (num_to_string n)"
| "to_string (JStr s) = Inr s"
| "to_string (JArr xs) =
     (case sequence_err (map (\<lambda>x. if nullish x then Inr [] else to_string x) xs) of
        Inl e \<Rightarrow> Inl e
      | Inr ss \<Rightarrow> Inr (join '','' ss))"
| "to_string (JObj fs) =
     (case map_of fs ''toString'' of None \<Rightarrow> Inr ''[object Object]'' | Some v \<Rightarrow> Inl TypeError)"

text \<open>\<open>v?.toString()\<close>: \<open>undefined\<close> when \<open>v\<close> is \<open>undefined\<close> or \<open>null\<close>.\<close>

definition opt_toString :: "jsval \<Rightarrow> js_error + jsval" where
  "opt_toString v =
     (if nullish v then Inr JUndefined
      else case to_string v of Inl e \<Rightarrow> Inl e | Inr s \<Rightarrow> Inr (JStr s))"

subsection \<open>String operations\<close>

text \<open>White space removed by \<open>trim\<close>: TAB, LF, VT, FF, CR, SP and NBSP.\<close>

definition is_space :: "char \<Rightarrow> bool" where
  "is_space c = ((of_char c :: nat) \<in> {9, 10, 11, 12, 13, 32, 160})"

definition trim :: "string \<Rightarrow> string" where
  "trim s = rev (dropWhile is_space (rev (dropWhile is_space s)))"

definition lower_char :: "char \<Rightarrow> char" where
  "lower_char c =
     (let n = (of_char c :: nat)
      in if (65 \<le> n \<and> n \<le> 90) \<or> (192 \<le> n \<and> n \<le> 222 \<and> n \<noteq> 215) then char_of (n + 32) else c)"

definition toLowerCase :: "string \<Rightarrow> string" where
  "toLowerCase s = map lower_char s"

text \<open>
  \<open>toUpperCase\<close> is only applied to a name of the country table, which is made of
  the letters a to z.
\<close>

definition upper_char :: "char \<Rightarrow> char" where
  "upper_char c =
     (let n = (of_char c :: nat)
      in if (97 \<le> n \<and> n \<le> 122) \<or> (224 \<le> n \<and> n \<le> 254 \<and> n \<noteq> 247) then char_of (n - 32) else c)"

definition toUpperCase :: "string \<Rightarrow> string" where
  "toUpperCase s = map upper_char s"

text \<open>\<open>s.split(d)\<close> for a one-character separator: never the empty list.\<close>

fun split_on :: "char \<Rightarrow> string \<Rightarrow> string list" where
  "split_on d [] = [[]]"
| "split_on d (c # cs) =
     (if c = d then [] # split_on d cs
      else case split_on d cs of [] \<Rightarrow> [[c]] | p # ps \<Rightarrow> (c # p) # ps)"

definition startsWith_slash :: "string \<Rightarrow> bool" where
  "startsWith_slash text = (case text of [] \<Rightarrow> False | c # cs \<Rightarrow> c = CHR ''/'')"

section \<open>Configuration tables\<close>

definition countryMap :: "(string \<times> string) list" where
  "countryMap = [(''usa'', ''us''), (''uk'', ''gb''), (''australia'', ''au''), (''canada'', ''ca'')]"

definition allowedEngines :: "string list" where
  "allowedEngines = [''google_maps'', ''google'', ''bing_maps'', ''apple_maps'']"

section \<open>Record normalizer (route /search)\<close>

record business =
  name :: jsval
  address :: jsval
  phone :: jsval
  website :: jsval
  rating :: jsval
  reviews :: jsval

text \<open>The body of \<open>rawResults.map(b => ({...}))\<close> for one element \<open>b\<close>.\<close>

definition normalize :: "jsval \<Rightarrow> js_error + business" where
  "normalize b =
     (if nullish b then Inl TypeError
      else Inr \<lparr>
        name = js_or (field b ''title'') (js_or (field b ''name'') (JStr ''No Name'')),
        address = js_or (field b ''address'') (js_or (field b ''street_address'') (JStr ''N/A'')),
        phone = js_or (field b ''phone'') (JStr ''N/A''),
        website = js_or (field b ''website'') (js_or (field b ''url'') (JStr ''N/A'')),
        rating = js_or (field b ''rating'') (JStr ''N/A''),
        reviews = js_or (field b ''reviews'') (js_or (field b ''review_count'') (JStr ''N/A''))\<rparr>)"

definition normalize_all :: "jsval list \<Rightarrow> js_error + business list" where
  "normalize_all raw = sequence_err (map normalize raw)"

text \<open>\<open>allowedEngines.includes(engine) ? engine : 'google_maps'\<close>\<close>

definition selectedEngine :: "jsval \<Rightarrow> jsval" where
  "selectedEngine engine =
     (if engine \<in> set (map JStr allowedEngines) then engine else JStr ''google_maps'')"

section \<open>Spreadsheet export (route /download-excel)\<close>

datatype http_response =
    Rejected nat string
  | Attachment string string

text \<open>
  The POST variant takes the records from the request body.  The workbook encoder is
  a library; it is a parameter here.
\<close>

definition download_excel :: "(jsval list \<Rightarrow> string) \<Rightarrow> jsval \<Rightarrow> string option \<Rightarrow> http_response" where
  "download_excel xlsx businesses filename =
     (case businesses of
        JArr rows \<Rightarrow>
          if length rows = 0 then Rejected 400 ''No data to export''
          else Attachment (case filename of None \<Rightarrow> ''businesses.xlsx'' | Some f \<Rightarrow> f) (xlsx rows)
      | _ \<Rightarrow> Rejected 400 ''No data to export'')"

text \<open>The GET variant exports the result of the latest search, kept in the process.\<close>

record export_state =
  latestBusinesses :: "business list"
  latestFilename :: string

definition initial_state :: export_state where
  "initial_state = \<lparr>latestBusinesses = [], latestFilename = ''businesses.xlsx''\<rparr>"

definition download_excel_latest :: "(business list \<Rightarrow> string) \<Rightarrow> export_state \<Rightarrow> http_response" where
  "download_excel_latest xlsx st =
     (if length (latestBusinesses st) = 0 then Rejected 400 ''No data to export''
      else Attachment (latestFilename st) (xlsx (latestBusinesses st)))"

section \<open>Markdown escaping\<close>

text \<open>
  \<^verbatim>\<open>text.replace(/[_*[\]()~`>#+\-=|{}.!]/g, '\\$&')\<close>: a global replacement of every
  character of a class by a backslash followed by the character itself.
\<close>

definition backslash :: char where
  "backslash = CHR 0x5C"

definition reserved :: "char \<Rightarrow> bool" where
  "reserved c = (c \<in> set [CHR ''_'', CHR ''*'', CHR ''['', CHR '']'', CHR ''('', CHR '')'',
     CHR ''~'', CHR 0x60, CHR ''>'', CHR ''#'', CHR ''+'', CHR ''-'', CHR ''='', CHR ''|'',
     CHR ''{'', CHR ''}'', CHR ''.'', CHR ''!''])"

primrec replace_class :: "(char \<Rightarrow> bool) \<Rightarrow> (char \<Rightarrow> string) \<Rightarrow> string \<Rightarrow> string" where
  "replace_class cls f [] = []"
| "replace_class cls f (c # cs) = (if cls c then f c else [c]) @ replace_class cls f cs"

text \<open>
  \<open>escapeMarkdown\<close>: a falsy argument gives the empty string; a string is escaped; any
  other truthy value has no \<open>replace\<close> method, and the call raises a TypeError.
\<close>

fun escapeMarkdown :: "jsval \<Rightarrow> js_error + string" where
  "escapeMarkdown (JStr s) = Inr (replace_class reserved (\<lambda>c. [backslash, c]) s)"
| "escapeMarkdown v = (if truthy v then Inl TypeError else Inr [])"

section \<open>Email extractor\<close>

subsection \<open>A backtracking matcher for sequences of quantified character classes\<close>

text \<open>
  The pattern \<^verbatim>\<open>/[a-zA-Z0-9._%+-]+@[a-zA-Z0-9.-]+\.[a-z]{2,}/gi\<close> is a sequence of
  items, each a character class with a least and a greatest number of repetitions
  (\<open>None\<close>: unbounded).  Every quantifier is greedy: the matcher tries the greatest
  number of repetitions first and backtracks to smaller ones.
\<close>

type_synonym item = "(char \<Rightarrow> bool) \<times> nat \<times> nat option"

fun first_some :: "'a option list \<Rightarrow> 'a option" where
  "first_some [] = None"
| "first_some (None # xs) = first_some xs"
| "first_some (Some x # xs) = Some x"

text \<open>\<open>match_items its s\<close>: the length of the match of \<open>its\<close> at the start of \<open>s\<close>.\<close>

fun match_items :: "item list \<Rightarrow> string \<Rightarrow> nat option" where
  "match_items [] s = Some 0"
| "match_items ((cls, lo, hi) # its) s =
     (let run = length (takeWhile cls s);
          top = (case hi of None \<Rightarrow> run | Some h \<Rightarrow> min h run)
      in first_some (map (\<lambda>n. map_option (\<lambda>k. n + k) (match_items its (drop n s)))
                         (rev [lo ..< Suc top])))"

text \<open>
  \<open>text.match(re)\<close> with the flag \<open>g\<close>: all matches, from left to right, each search
  starting where the previous match ended (one further after an empty match).
\<close>

function match_all :: "item list \<Rightarrow> string \<Rightarrow> string list" where
  "match_all its s =
     (case match_items its s of
        Some k \<Rightarrow> take k s # (if s = [] then [] else match_all its (drop (max k 1) s))
      | None \<Rightarrow> (if s = [] then [] else match_all its (drop 1 s)))"
  by pat_completeness auto
termination
  by (relation "measure (\<lambda>(its, s). length s)") auto

declare match_all.simps [simp del]

definition in_range :: "nat \<Rightarrow> nat \<Rightarrow> char \<Rightarrow> bool" where
  "in_range lo hi c = (lo \<le> of_char c \<and> (of_char c :: nat) \<le> hi)"

definition is_letter :: "char \<Rightarrow> bool" where
  "is_letter c = (in_range 97 122 c \<or> in_range 65 90 c)"

definition is_digit :: "char \<Rightarrow> bool" where
  "is_digit c = in_range 48 57 c"

definition local_class :: "char \<Rightarrow> bool" where
  "local_class c = (is_letter c \<or> is_digit c \<or> c \<in> set ''._%+-'')"

definition domain_class :: "char \<Rightarrow> bool" where
  "domain_class c = (is_letter c \<or> is_digit c \<or> c \<in> set ''.-'')"

definition emailRegex :: "item list" where
  "emailRegex =
     [(local_class, 1, None),
      (\<lambda>c. c = CHR ''@'', 1, Some 1),
      (domain_class, 1, None),
      (\<lambda>c. c = CHR ''.'', 1, Some 1),
      (is_letter, 2, None)]"

text \<open>\<open>[...new Set(matches)]\<close>: the first occurrence of each element, in order.\<close>

definition unique :: "'a list \<Rightarrow> 'a list" where
  "unique xs = fold (\<lambda>x acc. if x \<in> set acc then acc else acc @ [x]) xs []"

definition extractEmails :: "string \<Rightarrow> string list" where
  "extractEmails text = unique (match_all emailRegex text)"

text \<open>
  The page fetch either fails (network error, timeout, error status) or gives the
  response data.  Data that is not a string has no \<open>match\<close> method: the call raises,
  and the \<open>catch\<close> gives the empty list, as it does for a failed fetch.
\<close>

datatype fetch_result = FetchFailed | Fetched jsval

definition scrapeEmailsFromWebsite :: "(jsval \<Rightarrow> fetch_result) \<Rightarrow> jsval \<Rightarrow> string list" where
  "scrapeEmailsFromWebsite web url =
     (case web url of
        FetchFailed \<Rightarrow> []
      | Fetched (JStr doc) \<Rightarrow> extractEmails doc
      | Fetched _ \<Rightarrow> [])"

section \<open>Chat interface\<close>

text \<open>
  The chat interface exists in two variants with the same command parser, the same
  messages for the records and the same loop over the first 10 records: a webhook
  (\<open>src/api/server.js\<close>) and a polling bot.  The model follows the webhook.  The
  polling bot differs in that it tests the country by a lookup in the table and
  escapes an empty city to the empty string in its announcement.
\<close>

subsection \<open>Command parser\<close>

record search_request =
  keyword :: string
  city :: string
  country :: string
  engine :: string

definition command_parts :: "string \<Rightarrow> string list" where
  "command_parts text = map trim (split_on CHR '','' (drop 1 text))"

text \<open>The four assignments from \<open>parts\<close>; they are made when \<open>parts\<close> has 2 elements or more.\<close>

definition command_fields :: "string list \<Rightarrow> search_request" where
  "command_fields parts = \<lparr>
     keyword = parts ! 0,
     city = (if length parts \<ge> 4 then parts ! 1 else (if length parts = 3 then parts ! 1 else [])),
     country = (if length parts \<ge> 4 then toLowerCase (parts ! 2)
                else (if length parts = 3 then toLowerCase (parts ! 2) else toLowerCase (parts ! 1))),
     engine = (if length parts = 4 then toLowerCase (parts ! 3) else ''google_maps'')\<rparr>"

datatype parse_error = NotCommand | BadFormat

definition parse_command :: "string \<Rightarrow> parse_error + search_request" where
  "parse_command text =
     (if \<not> startsWith_slash text then Inl NotCommand
      else let parts = command_parts text
           in if length parts < 2 then Inl BadFormat else Inr (command_fields parts))"

subsection \<open>Message for one record\<close>

text \<open>Binding for computations that may raise.\<close>

definition bind_err :: "'e + 'a \<Rightarrow> ('a \<Rightarrow> 'e + 'b) \<Rightarrow> 'e + 'b" where
  "bind_err m f = (case m of Inl e \<Rightarrow> Inl e | Inr x \<Rightarrow> f x)"

text \<open>
  The line \<open>Rating: ... (... reviews)\<close> of the message, with its two interpolated
  expressions \<open>escapeMarkdown(b.rating?.toString() || 'N/A')\<close> and
  \<open>escapeMarkdown(b.reviews?.toString() || '0')\<close>.
\<close>

definition rating_text :: "jsval \<Rightarrow> js_error + string" where
  "rating_text b =
     bind_err (opt_toString (field b ''rating'')) (\<lambda>r. escapeMarkdown (js_or r (JStr ''N/A'')))"

definition reviews_text :: "jsval \<Rightarrow> js_error + string" where
  "reviews_text b =
     bind_err (opt_toString (field b ''reviews'')) (\<lambda>v. escapeMarkdown (js_or v (JStr ''0'')))"

definition rating_line :: "jsval \<Rightarrow> js_error + string" where
  "rating_line b =
     bind_err (rating_text b) (\<lambda>rt.
     bind_err (reviews_text b) (\<lambda>vt.
     Inr (''Rating: '' @ rt @ '' ('' @ vt @ '' reviews)'' @ [CHR 0x0A])))"

definition emails_line :: "string list \<Rightarrow> js_error + string" where
  "emails_line emails =
     (if length emails \<noteq> 0
      then bind_err (sequence_err (map (\<lambda>e. escapeMarkdown (JStr e)) emails)) (\<lambda>es.
           Inr (''Emails: '' @ join '', '' es @ [CHR 0x0A]))
      else Inr (''Emails: None found'' @ [CHR 0x0A]))"

definition record_message :: "(jsval \<Rightarrow> fetch_result) \<Rightarrow> jsval \<Rightarrow> js_error + string" where
  "record_message web b =
     (if nullish b then Inl TypeError
      else
        let emails = (if truthy (field b ''website'')
                      then scrapeEmailsFromWebsite web (field b ''website'') else [])
        in
        bind_err (escapeMarkdown (js_or (field b ''title'') (js_or (field b ''name'') (JStr ''No Name'')))) (\<lambda>l1.
        bind_err (escapeMarkdown (js_or (field b ''address'') (js_or (field b ''street_address'') (JStr ''N/A'')))) (\<lambda>l2.
        bind_err (escapeMarkdown (js_or (field b ''phone'') (JStr ''N/A''))) (\<lambda>l3.
        bind_err (escapeMarkdown (js_or (field b ''website'') (js_or (field b ''url'') (JStr ''N/A'')))) (\<lambda>l4.
        bind_err (rating_line b) (\<lambda>l5.
        bind_err (emails_line emails) (\<lambda>l6.
        Inr (''*'' @ l1 @ ''*'' @ [CHR 0x0A]
             @ ''Address: '' @ l2 @ [CHR 0x0A]
             @ ''Phone: '' @ l3 @ [CHR 0x0A]
             @ ''Website: '' @ l4 @ [CHR 0x0A]
             @ l5 @ l6))))))))"

subsection \<open>The webhook handler\<close>

datatype chat_message = Plain string | Markdown string

text \<open>
  The loop over the records: one message for each record, until a record raises.
  The result is the messages sent and whether the loop ran to its end.
\<close>

fun deliver :: "(jsval \<Rightarrow> fetch_result) \<Rightarrow> jsval list \<Rightarrow> chat_message list \<times> bool" where
  "deliver web [] = ([], True)"
| "deliver web (b # bs) =
     (case record_message web b of
        Inl e \<Rightarrow> ([], False)
      | Inr msg \<Rightarrow> (case deliver web bs of (ms, ok) \<Rightarrow> (Markdown msg # ms, ok)))"

definition str_or :: "string \<Rightarrow> string \<Rightarrow> string" where
  "str_or a b = (if a \<noteq> [] then a else b)"

definition esc :: "string \<Rightarrow> string" where
  "esc s = replace_class reserved (\<lambda>c. [backslash, c]) s"

text \<open>
  The search and the delivery for a validated request.  \<open>serp\<close> is the search backend
  (the function \<open>fetchBusinesses\<close>, which gives an array and never raises); it takes
  the query, the region code \<open>countryMap[country]\<close> and the engine.
\<close>

definition announcement :: "search_request \<Rightarrow> chat_message" where
  "announcement r =
     Markdown (''Searching for *'' @ esc (keyword r) @ ''* in *''
               @ esc (str_or (city r) ''N/A'') @ '', ''
               @ esc (toUpperCase (country r)) @ ''* using *'' @ engine r @ ''*'')"

definition search_query :: "search_request \<Rightarrow> string" where
  "search_query r =
     (if city r \<noteq> [] then keyword r @ '' in '' @ city r @ '', '' @ country r
      else keyword r @ '' in '' @ country r)"

definition search_and_deliver ::
  "(string \<Rightarrow> string option \<Rightarrow> string \<Rightarrow> jsval list) \<Rightarrow> (jsval \<Rightarrow> fetch_result) \<Rightarrow> search_request
     \<Rightarrow> chat_message list \<times> string" where
  "search_and_deliver serp web r =
     (let gl = map_of countryMap (country r);
          businessesRaw = serp (search_query r) gl (engine r)
      in if length businessesRaw = 0
         then ([announcement r, Plain ''No businesses found.''], ''No businesses found'')
         else (case deliver web (take 10 businessesRaw) of
                 (ms, ok) \<Rightarrow>
                   (announcement r # ms
                      @ (if ok then [] else [Plain ''Something went wrong. Try again later.'']),
                    ''OK'')))"

text \<open>Validation of the country and of the engine, then the search.\<close>

definition handle_request ::
  "(string \<Rightarrow> string option \<Rightarrow> string \<Rightarrow> jsval list) \<Rightarrow> (jsval \<Rightarrow> fetch_result) \<Rightarrow> search_request
     \<Rightarrow> chat_message list \<times> string" where
  "handle_request serp web r =
     (if country r \<notin> set (map fst countryMap)
      then ([Plain ''Allowed countries: usa, uk, australia, canada''], ''Invalid country'')
      else if engine r \<notin> set allowedEngines
      then ([Plain (''Allowed engines: '' @ join '', '' allowedEngines)], ''Invalid engine'')
      else search_and_deliver serp web r)"

definition format_help :: chat_message where
  "format_help =
     Plain (''Format: / keyword , city , country [, engine]'' @ [CHR 0x0A]
            @ ''Example: / seo , new york , usa , google_maps'')"

text \<open>
  The handler of the webhook: from the text of the incoming message (\<open>None\<close>: the
  update has no message) to the chat messages sent, in order, and the body of the
  HTTP reply.
\<close>

definition telegram_webhook ::
  "(string \<Rightarrow> string option \<Rightarrow> string \<Rightarrow> jsval list) \<Rightarrow> (jsval \<Rightarrow> fetch_result) \<Rightarrow> string option
     \<Rightarrow> chat_message list \<times> string" where
  "telegram_webhook serp web message_text =
     (case message_text of
        None \<Rightarrow> ([], ''No message'')
      | Some text \<Rightarrow>
          (if text = [] then ([], ''No message'')
           else (case parse_command text of
                   Inl NotCommand \<Rightarrow> ([], ''Ignored'')
                 | Inl BadFormat \<Rightarrow> ([format_help], ''Bad format'')
                 | Inr r \<Rightarrow> handle_request serp web r)))"

section \<open>The route /search\<close>

text \<open>
  \<open>countryMap[k]\<close>: the table is a plain object, so a name that is not a key of its
  own is looked up in \<open>Object.prototype\<close>, whose properties are functions or objects
  (all truthy).  Only for any other name the lookup gives \<open>undefined\<close>.
\<close>

datatype region = Region string | Inherited string

definition object_prototype_names :: "string list" where
  "object_prototype_names =
     [''constructor'', ''__defineGetter__'', ''__defineSetter__'', ''hasOwnProperty'',
      ''__lookupGetter__'', ''__lookupSetter__'', ''isPrototypeOf'', ''propertyIsEnumerable'',
      ''toString'', ''valueOf'', ''__proto__'', ''toLocaleString'']"

definition countryMap_get :: "string \<Rightarrow> region option" where
  "countryMap_get k =
     (case map_of countryMap k of
        Some code \<Rightarrow> Some (Region code)
      | None \<Rightarrow> (if k \<in> set object_prototype_names then Some (Inherited k) else None))"

datatype search_response =
    BadRequest string
  | Businesses "business list"
  | ServerError string

text \<open>
  The handler up to the call of \<open>fetchBusinesses\<close>: it raises (the body is
  \<open>undefined\<close>, the country has no method \<open>toLowerCase\<close>, or a value cannot be put
  into the query), or it answers with status 400, or it gives the three arguments of
  the call: the query, the region and the selected engine.
\<close>

definition search_call :: "jsval \<Rightarrow> js_error + (search_response + string \<times> region \<times> jsval)" where
  "search_call body =
     (if nullish body then Inl TypeError
      else if \<not> truthy (field body ''keyword'') \<or> \<not> truthy (field body ''country'')
      then Inr (Inl (BadRequest ''Keyword and country are required''))
      else (case field body ''country'' of
              JStr c \<Rightarrow>
                (case countryMap_get (toLowerCase c) of
                   None \<Rightarrow> Inr (Inl (BadRequest ''Invalid country selected''))
                 | Some region \<Rightarrow>
                     bind_err (to_string (field body ''keyword'')) (\<lambda>k.
                     if truthy (field body ''city'')
                     then bind_err (to_string (field body ''city'')) (\<lambda>ci.
                            Inr (Inr (k @ '' in '' @ ci @ '', '' @ c, region,
                                      selectedEngine (field body ''engine''))))
                     else Inr (Inr (k @ '' in '' @ c, region,
                                    selectedEngine (field body ''engine'')))))
            | _ \<Rightarrow> Inl TypeError))"

text \<open>
  The whole handler, for a search backend \<open>serp\<close> (the function \<open>fetchBusinesses\<close>
  with the arguments as this route passes them).  A result that cannot be normalized
  raises inside the \<open>try\<close> and is answered with status 500.  The model follows
  \<open>src/api/server.js\<close>; the other variant of the route also stores the result and a
  file name for the export.
\<close>

definition search_route ::
  "(string \<Rightarrow> region \<Rightarrow> jsval \<Rightarrow> jsval list) \<Rightarrow> jsval \<Rightarrow> js_error + search_response" where
  "search_route serp body =
     (case search_call body of
        Inl e \<Rightarrow> Inl e
      | Inr (Inl response) \<Rightarrow> Inr response
      | Inr (Inr (q, region, selected)) \<Rightarrow>
          (case normalize_all (serp q region selected) of
             Inl e \<Rightarrow> Inr (ServerError ''Failed to fetch data from SerpAPI'')
           | Inr businesses \<Rightarrow> Inr (Businesses businesses)))"

section \<open>Validation in the polling bot\<close>

text \<open>
  The polling bot tests the country by the lookup \<open>countryMap[country]\<close> and the engine
  as the webhook does; \<open>None\<close> means that the command goes on to the search.
\<close>

definition polling_validate :: "search_request \<Rightarrow> chat_message option" where
  "polling_validate r =
     (if countryMap_get (country r) = None
      then Some (Plain ''Allowed countries: usa, uk, australia, canada'')
      else if engine r \<notin> set allowedEngines
      then Some (Plain (''Allowed engines: '' @ join '', '' allowedEngines))
      else None)"

section \<open>Definitions used to state the properties\<close>

text \<open>
  The fallback chain as the specification words it: the first present field in the
  declared priority order, a falsy value counting as absent, or else the default.
\<close>

definition spec_fallback :: "jsval \<Rightarrow> string list \<Rightarrow> string \<Rightarrow> jsval" where
  "spec_fallback b keys dflt =
     (case find truthy (map (field b) keys) of Some v \<Rightarrow> v | None \<Rightarrow> JStr dflt)"

definition sample_record :: jsval where
  "sample_record = JObj [(''title'', JStr []), (''name'', JStr ''Cafe''),
     (''address'', JStr ''1 Main St''), (''street_address'', JStr ''other''),
     (''rating'', JNum 0), (''review_count'', JNum 12)]"

definition full_record :: jsval where
  "full_record = JObj [(''title'', JStr ''Acme''), (''name'', JStr ''other name''),
     (''address'', JStr ''2 High St''), (''street_address'', JStr ''other street''),
     (''phone'', JStr ''555''), (''website'', JStr ''http://acme.example''),
     (''url'', JStr ''http://other.example''), (''rating'', JNum 4.5),
     (''reviews'', JNum 1203), (''review_count'', JNum 7)]"

text \<open>The record of default values, and the names of the source fields read.\<close>

definition sentinels :: business where
  "sentinels = \<lparr>name = JStr ''No Name'', address = JStr ''N/A'', phone = JStr ''N/A'',
     website = JStr ''N/A'', rating = JStr ''N/A'', reviews = JStr ''N/A''\<rparr>"

definition source_fields :: "string list" where
  "source_fields = [''title'', ''name'', ''address'', ''street_address'', ''phone'',
     ''website'', ''url'', ''rating'', ''reviews'', ''review_count'']"

text \<open>
  Sample surroundings: a search backend that gives one record for every query, and a
  web on which every fetch fails.
\<close>

definition sample_serp :: "string \<Rightarrow> string option \<Rightarrow> string \<Rightarrow> jsval list" where
  "sample_serp q gl e = [JObj [(''title'', JStr ''Acme'')]]"

definition offline_web :: "jsval \<Rightarrow> fetch_result" where
  "offline_web url = FetchFailed"

text \<open>The request of the command \<open>/seo,new york,usa,yahoo\<close>.\<close>

definition yahoo_request :: search_request where
  "yahoo_request = \<lparr>keyword = ''seo'', city = ''new york'', country = ''usa'', engine = ''yahoo''\<rparr>"

text \<open>Sample records whose field \<open>reviews\<close> is falsy.\<close>

definition false_reviews_record :: jsval where
  "false_reviews_record = JObj [(''title'', JStr ''Acme''), (''reviews'', JBool False)]"

definition zero_reviews_record :: jsval where
  "zero_reviews_record = JObj [(''title'', JStr ''Acme''), (''reviews'', JNum 0)]"

text \<open>
  A search backend that gives twelve records for every query, and the message of one
  of these records.
\<close>

definition twelve_serp :: "string \<Rightarrow> string option \<Rightarrow> string \<Rightarrow> jsval list" where
  "twelve_serp q gl e = replicate 12 (JObj [(''title'', JStr ''Acme'')])"

definition acme_text :: string where
  "acme_text = ''*Acme*'' @ [CHR 0x0A] @ ''Address: N/A'' @ [CHR 0x0A] @ ''Phone: N/A'' @ [CHR 0x0A]
          @ ''Website: N/A'' @ [CHR 0x0A] @ ''Rating: N/A (0 reviews)'' @ [CHR 0x0A]
          @ ''Emails: None found'' @ [CHR 0x0A]"

text \<open>
  The strings a sequence of items denotes: a string matches when it can be cut into
  one segment for each item, the segment made of characters of the class of the item
  and of a length within its bounds.
\<close>

fun matches :: "item list \<Rightarrow> string \<Rightarrow> bool" where
  "matches [] s = (s = [])"
| "matches ((cls, lo, hi) # its) s =
     (\<exists>n \<in> set [lo ..< Suc (length s)].
        (case hi of None \<Rightarrow> True | Some h \<Rightarrow> n \<le> h)
        \<and> list_all cls (take n s) \<and> matches its (drop n s))"

text \<open>
  An address as the specification words it: a local part, \<open>@\<close>, a domain, a dot and
  a top-level domain of 2 letters or more.
\<close>

definition email_shape :: "string \<Rightarrow> bool" where
  "email_shape e =
     (\<exists>l d t. e = l @ ''@'' @ d @ ''.'' @ t
        \<and> l \<noteq> [] \<and> list_all local_class l
        \<and> d \<noteq> [] \<and> list_all domain_class d
        \<and> 2 \<le> length t \<and> list_all is_letter t)"

text \<open>A web that serves one page for every address.\<close>

definition page_web :: "jsval \<Rightarrow> fetch_result" where
  "page_web url = Fetched (JStr ''write to a@b.co or a@b.co'')"

text \<open>The last two items of the pattern: the dot and the top-level domain.\<close>

definition tld_items :: "item list" where
  "tld_items = [(\<lambda>c. c = CHR ''.'', 1, Some 1), (is_letter, 2, None)]"

text \<open>
  Sample inputs of the route \<open>/search\<close>: a backend that gives one record for every
  call, with the engine of the call as its title and the query as its address, and a
  request body with an engine that is not allowed.
\<close>

definition sample_search :: "string \<Rightarrow> region \<Rightarrow> jsval \<Rightarrow> jsval list" where
  "sample_search q rg e = [JObj [(''title'', e), (''address'', JStr q)]]"

definition yahoo_body :: "(string \<times> jsval) list" where
  "yahoo_body = [(''keyword'', JStr ''seo''), (''country'', JStr ''USA''), (''engine'', JStr ''yahoo'')]"

section \<open>The model on sample inputs\<close>

lemma num_to_string_examples:
  "num_to_string 1203 = ''1203''" "num_to_string 4.5 = ''4.5''" "num_to_string (- 3.25) = ''-3.25''"
  by code_simp+

lemma to_string_examples:
  "to_string (JArr [JNum 1, JNull, JArr [JStr ''a'', JBool True]]) = Inr ''1,,a,true''"
  "to_string (JObj [(''a'', JNum 1)]) = Inr ''[object Object]''"
  "to_string (JObj [(''toString'', JNum 1)]) = Inl TypeError"
  by code_simp+

lemma trim_examples:
  "trim '' new york  '' = ''new york''" "trim ''   '' = []" "trim [] = []"
  by code_simp+

lemma split_on_examples:
  "split_on CHR '','' [] = [[]]" "split_on CHR '','' ''a,,b,'' = [''a'', [], ''b'', []]"
  by code_simp+

lemma extractEmails_examples:
  "extractEmails ''x a@b.com, a@b.com c@d.org.'' = [''a@b.com'', ''c@d.org'']"
  "extractEmails ''no address: spam@x, @b.com, a@.c'' = []"
  "extractEmails ''a@b.c0m a@b.co.u'' = [''a@b.co'']"
  by code_simp+

lemma record_message_example:
  "record_message page_web
     (JObj [(''title'', JStr ''A+B (test)''), (''address'', JStr ''1 Main St.''),
            (''website'', JStr ''http://acme.example''), (''rating'', JNum 4.5),
            (''reviews'', JNum 1203)]) =
   Inr (''*A'' @ [backslash] @ ''+B '' @ [backslash] @ ''(test'' @ [backslash] @ '')*'' @ [CHR 0x0A]
        @ ''Address: 1 Main St'' @ [backslash] @ ''.'' @ [CHR 0x0A]
        @ ''Phone: N/A'' @ [CHR 0x0A]
        @ ''Website: http://acme'' @ [backslash] @ ''.example'' @ [CHR 0x0A]
        @ ''Rating: 4'' @ [backslash] @ ''.5 (1203 reviews)'' @ [CHR 0x0A]
        @ ''Emails: a@b'' @ [backslash] @ ''.co'' @ [CHR 0x0A])"
  by code_simp

lemma record_message_raises:
  "record_message offline_web JNull = Inl TypeError"
  "record_message offline_web (JObj [(''title'', JNum 5)]) = Inl TypeError"
  by code_simp+

lemma search_call_examples:
  "search_call (JObj yahoo_body) = Inr (Inr (''seo in USA'', Region ''us'', JStr ''google_maps''))"
  "search_call (JObj [(''keyword'', JStr ''seo''), (''country'', JStr ''uk''), (''city'', JStr ''Leeds''),
      (''engine'', JStr ''bing_maps'')]) = Inr (Inr (''seo in Leeds, uk'', Region ''gb'', JStr ''bing_maps''))"
  "search_call (JObj [(''keyword'', JStr ''seo'')]) =
      Inr (Inl (BadRequest ''Keyword and country are required''))"
  "search_call (JObj [(''keyword'', JStr ''seo''), (''country'', JStr ''mars'')]) =
      Inr (Inl (BadRequest ''Invalid country selected''))"
  "search_call (JObj [(''keyword'', JStr ''seo''), (''country'', JNum 4)]) = Inl TypeError"
  "search_call JNull = Inl TypeError"
  by code_simp+

section \<open>Properties of the record normalizer\<close>

lemma spec_fallback_two:
  "spec_fallback b [k1, k2] d = js_or (field b k1) (js_or (field b k2) (JStr d))"
  by (simp add: spec_fallback_def js_or_def)

lemma spec_fallback_one:
  "spec_fallback b [k] d = js_or (field b k) (JStr d)"
  by (simp add: spec_fallback_def js_or_def)

lemma spec_fallback_first:
  "truthy (field b k) \<Longrightarrow> spec_fallback b (k # ks) d = field b k"
  by (simp add: spec_fallback_def)

lemma spec_fallback_skip:
  "\<not> truthy (field b k) \<Longrightarrow> spec_fallback b (k # ks) d = spec_fallback b ks d"
  by (simp add: spec_fallback_def)

text \<open>
  Claim C1.  For every raw record, each field of the normalized record is the first
  present field of its chain (name: title, name, \<open>No Name\<close>; address: address,
  street_address, \<open>N/A\<close>; phone: phone, \<open>N/A\<close>; website: website, url, \<open>N/A\<close>;
  rating: rating, \<open>N/A\<close>; reviews: reviews, review_count, \<open>N/A\<close>).  A truthy first
  field is taken whatever the later fields hold, and a falsy value (\<open>0\<close>, the empty
  string) counts as absent.
\<close>

theorem normalize_fallback_chains:
  assumes "\<not> nullish b"
  shows "\<exists>r. normalize b = Inr r
     \<and> name r = spec_fallback b [''title'', ''name''] ''No Name''
     \<and> address r = spec_fallback b [''address'', ''street_address''] ''N/A''
     \<and> phone r = spec_fallback b [''phone''] ''N/A''
     \<and> website r = spec_fallback b [''website'', ''url''] ''N/A''
     \<and> rating r = spec_fallback b [''rating''] ''N/A''
     \<and> reviews r = spec_fallback b [''reviews'', ''review_count''] ''N/A''
     \<and> (truthy (field b ''title'') \<longrightarrow> name r = field b ''title'')
     \<and> (truthy (field b ''address'') \<longrightarrow> address r = field b ''address'')
     \<and> (truthy (field b ''phone'') \<longrightarrow> phone r = field b ''phone'')
     \<and> (truthy (field b ''website'') \<longrightarrow> website r = field b ''website'')
     \<and> (truthy (field b ''rating'') \<longrightarrow> rating r = field b ''rating'')
     \<and> (truthy (field b ''reviews'') \<longrightarrow> reviews r = field b ''reviews'')
     \<and> (\<not> truthy (field b ''title'') \<and> truthy (field b ''name'') \<longrightarrow> name r = field b ''name'')
     \<and> (\<not> truthy (field b ''address'') \<and> truthy (field b ''street_address'')
          \<longrightarrow> address r = field b ''street_address'')
     \<and> (\<not> truthy (field b ''website'') \<and> truthy (field b ''url'') \<longrightarrow> website r = field b ''url'')
     \<and> (\<not> truthy (field b ''reviews'') \<and> truthy (field b ''review_count'')
          \<longrightarrow> reviews r = field b ''review_count'')"
  using assms
  by (simp add: normalize_def spec_fallback_two spec_fallback_one js_or_def)

theorem normalize_fallback_chains_witness:
  "\<not> nullish sample_record
   \<and> normalize sample_record = Inr \<lparr>name = JStr ''Cafe'', address = JStr ''1 Main St'',
        phone = JStr ''N/A'', website = JStr ''N/A'', rating = JStr ''N/A'', reviews = JNum 12\<rparr>
   \<and> \<not> truthy (field sample_record ''title'') \<and> truthy (field sample_record ''name'')
   \<and> truthy (field sample_record ''address'')
   \<and> \<not> nullish full_record
   \<and> normalize full_record = Inr \<lparr>name = JStr ''Acme'', address = JStr ''2 High St'',
        phone = JStr ''555'', website = JStr ''http://acme.example'', rating = JNum 4.5,
        reviews = JNum 1203\<rparr>"
proof -
  have n: "\<not> nullish sample_record" by (simp add: sample_record_def)
  have f: "field sample_record ''title'' = JStr []" "field sample_record ''name'' = JStr ''Cafe''"
    "field sample_record ''address'' = JStr ''1 Main St''"
    "field sample_record ''phone'' = JUndefined" "field sample_record ''website'' = JUndefined"
    "field sample_record ''url'' = JUndefined" "field sample_record ''rating'' = JNum 0"
    "field sample_record ''reviews'' = JUndefined" "field sample_record ''review_count'' = JNum 12"
    by (simp_all add: sample_record_def)
  from normalize_fallback_chains[OF n] obtain r where r: "normalize sample_record = Inr r"
    and "name r = spec_fallback sample_record [''title'', ''name''] ''No Name''"
    and "address r = spec_fallback sample_record [''address'', ''street_address''] ''N/A''"
    and "phone r = spec_fallback sample_record [''phone''] ''N/A''"
    and "website r = spec_fallback sample_record [''website'', ''url''] ''N/A''"
    and "rating r = spec_fallback sample_record [''rating''] ''N/A''"
    and "reviews r = spec_fallback sample_record [''reviews'', ''review_count''] ''N/A''"
    by blast
  then have "name r = JStr ''Cafe''" "address r = JStr ''1 Main St''" "phone r = JStr ''N/A''"
    "website r = JStr ''N/A''" "rating r = JStr ''N/A''" "reviews r = JNum 12"
    by (simp_all add: spec_fallback_def f)
  then have "r = \<lparr>name = JStr ''Cafe'', address = JStr ''1 Main St'',
        phone = JStr ''N/A'', website = JStr ''N/A'', rating = JStr ''N/A'', reviews = JNum 12\<rparr>"
    by (cases r) simp
  with r have first: "normalize sample_record = Inr \<lparr>name = JStr ''Cafe'', address = JStr ''1 Main St'',
        phone = JStr ''N/A'', website = JStr ''N/A'', rating = JStr ''N/A'', reviews = JNum 12\<rparr>"
    by simp
  have n': "\<not> nullish full_record" by (simp add: full_record_def)
  have g: "field full_record ''title'' = JStr ''Acme''" "field full_record ''address'' = JStr ''2 High St''"
    "field full_record ''phone'' = JStr ''555''"
    "field full_record ''website'' = JStr ''http://acme.example''"
    "field full_record ''rating'' = JNum 4.5" "field full_record ''reviews'' = JNum 1203"
    by (simp_all add: full_record_def)
  from normalize_fallback_chains[OF n'] obtain q where q: "normalize full_record = Inr q"
    and "truthy (field full_record ''title'') \<longrightarrow> name q = field full_record ''title''"
    and "truthy (field full_record ''address'') \<longrightarrow> address q = field full_record ''address''"
    and "truthy (field full_record ''phone'') \<longrightarrow> phone q = field full_record ''phone''"
    and "truthy (field full_record ''website'') \<longrightarrow> website q = field full_record ''website''"
    and "truthy (field full_record ''rating'') \<longrightarrow> rating q = field full_record ''rating''"
    and "truthy (field full_record ''reviews'') \<longrightarrow> reviews q = field full_record ''reviews''"
    by blast
  then have "name q = JStr ''Acme''" "address q = JStr ''2 High St''" "phone q = JStr ''555''"
    "website q = JStr ''http://acme.example''" "rating q = JNum 4.5" "reviews q = JNum 1203"
    by (simp_all add: g)
  then have "q = \<lparr>name = JStr ''Acme'', address = JStr ''2 High St'',
        phone = JStr ''555'', website = JStr ''http://acme.example'', rating = JNum 4.5,
        reviews = JNum 1203\<rparr>"
    by (cases q) simp
  with q have second: "normalize full_record = Inr \<lparr>name = JStr ''Acme'', address = JStr ''2 High St'',
        phone = JStr ''555'', website = JStr ''http://acme.example'', rating = JNum 4.5,
        reviews = JNum 1203\<rparr>"
    by simp
  from n f first n' second show ?thesis by simp
qed

lemma js_or_truthy: "truthy b \<Longrightarrow> truthy (js_or a b)"
  by (simp add: js_or_def)

lemma truthy_not_nullish: "truthy v \<Longrightarrow> \<not> nullish v"
  by (cases v) simp_all

lemma js_or_falsy: "\<not> truthy a \<Longrightarrow> js_or a b = b"
  by (simp add: js_or_def)

text \<open>
  Claim C4.  Normalization is a total function on raw records (JSON objects): it
  raises for no record, and each of the six fields of its result is present, neither
  \<open>undefined\<close> nor \<open>null\<close> (indeed truthy).  When the record provides none of the
  source fields, the result holds the default values \<open>No Name\<close> and \<open>N/A\<close>.  Every
  record that normalization produces, from whatever input, has its six fields truthy.
\<close>

theorem normalize_total_all_fields:
  "\<exists>r. normalize (JObj fs) = Inr r
     \<and> \<not> nullish (name r) \<and> \<not> nullish (address r) \<and> \<not> nullish (phone r)
     \<and> \<not> nullish (website r) \<and> \<not> nullish (rating r) \<and> \<not> nullish (reviews r)
     \<and> truthy (name r) \<and> truthy (address r) \<and> truthy (phone r)
     \<and> truthy (website r) \<and> truthy (rating r) \<and> truthy (reviews r)
     \<and> ((\<forall>k \<in> set source_fields. \<not> truthy (field (JObj fs) k)) \<longrightarrow> r = sentinels)
     \<and> (\<forall>b r'. normalize b = Inr r' \<longrightarrow>
           truthy (name r') \<and> truthy (address r') \<and> truthy (phone r')
           \<and> truthy (website r') \<and> truthy (rating r') \<and> truthy (reviews r'))"
proof -
  let ?b = "JObj fs"
  define r where "r = \<lparr>
        name = js_or (field ?b ''title'') (js_or (field ?b ''name'') (JStr ''No Name'')),
        address = js_or (field ?b ''address'') (js_or (field ?b ''street_address'') (JStr ''N/A'')),
        phone = js_or (field ?b ''phone'') (JStr ''N/A''),
        website = js_or (field ?b ''website'') (js_or (field ?b ''url'') (JStr ''N/A'')),
        rating = js_or (field ?b ''rating'') (JStr ''N/A''),
        reviews = js_or (field ?b ''reviews'') (js_or (field ?b ''review_count'') (JStr ''N/A''))\<rparr>"
  have eq: "normalize ?b = Inr r"
    by (simp add: normalize_def r_def)
  have t: "truthy (name r)" "truthy (address r)" "truthy (phone r)"
      "truthy (website r)" "truthy (rating r)" "truthy (reviews r)"
    by (simp_all add: r_def js_or_truthy)
  then have n: "\<not> nullish (name r)" "\<not> nullish (address r)" "\<not> nullish (phone r)"
      "\<not> nullish (website r)" "\<not> nullish (rating r)" "\<not> nullish (reviews r)"
    by (simp_all add: truthy_not_nullish)
  have d: "r = sentinels" if "\<forall>k \<in> set source_fields. \<not> truthy (field ?b k)"
    using that by (simp add: r_def sentinels_def source_fields_def js_or_falsy)
  have g: "truthy (name r') \<and> truthy (address r') \<and> truthy (phone r')
           \<and> truthy (website r') \<and> truthy (rating r') \<and> truthy (reviews r')"
    if "normalize b = Inr r'" for b r'
  proof -
    from that have "\<not> nullish b"
      by (auto simp add: normalize_def split: if_splits)
    with that show ?thesis
      by (auto simp add: normalize_def js_or_truthy)
  qed
  from eq t n d g show ?thesis by blast
qed

theorem normalize_total_all_fields_witness:
  "normalize (JObj [(''title'', JNull), (''rating'', JNum 0)]) = Inr sentinels
   \<and> normalize (JObj []) = Inr sentinels
   \<and> truthy (name sentinels) \<and> truthy (reviews sentinels)"
proof -
  have h: "\<forall>k \<in> set source_fields. \<not> truthy (field (JObj [(''title'', JNull), (''rating'', JNum 0)]) k)"
    by (simp add: source_fields_def)
  have h': "\<forall>k \<in> set source_fields. \<not> truthy (field (JObj []) k)"
    by (simp add: source_fields_def)
  from normalize_total_all_fields[of "[(''title'', JNull), (''rating'', JNum 0)]"] h
  have 1: "normalize (JObj [(''title'', JNull), (''rating'', JNum 0)]) = Inr sentinels"
    by blast
  from normalize_total_all_fields[of "[]"] h'
  have 2: "normalize (JObj []) = Inr sentinels"
    by blast
  from normalize_total_all_fields[of "[]"]
  have "\<forall>b r'. normalize b = Inr r' \<longrightarrow>
           truthy (name r') \<and> truthy (address r') \<and> truthy (phone r')
           \<and> truthy (website r') \<and> truthy (rating r') \<and> truthy (reviews r')"
    by blast
  with 2 have 3: "truthy (name sentinels)" "truthy (reviews sentinels)"
    by blast+
  from 1 2 3 show ?thesis by (intro conjI)
qed

text \<open>
  An array element that is \<open>null\<close> is not a record: reading its properties raises.
\<close>

lemma normalize_null: "normalize JNull = Inl TypeError" "normalize JUndefined = Inl TypeError"
  by (simp_all add: normalize_def)

section \<open>Properties of the spreadsheet export\<close>

text \<open>
  Claim C8.  An export request whose list of records is missing, \<open>null\<close>, not an
  array or empty is answered with status 400 and the text \<open>No data to export\<close>;
  whenever a workbook is answered, it encodes a non-empty list.  The same holds for
  the variant that exports the latest search result, which rejects in its initial
  state.
\<close>

theorem export_rejects_empty:
  "(businesses = JUndefined \<or> businesses = JNull \<or> businesses = JArr [] \<or> (\<forall>rows. businesses \<noteq> JArr rows)
      \<longrightarrow> download_excel xlsx businesses filename = Rejected 400 ''No data to export'')
   \<and> (download_excel xlsx businesses filename = Attachment f bytes
      \<longrightarrow> (\<exists>rows. businesses = JArr rows \<and> rows \<noteq> [] \<and> bytes = xlsx rows))
   \<and> (latestBusinesses st = []
      \<longrightarrow> download_excel_latest xlsx' st = Rejected 400 ''No data to export'')
   \<and> (download_excel_latest xlsx' st = Attachment f bytes
      \<longrightarrow> latestBusinesses st \<noteq> [] \<and> bytes = xlsx' (latestBusinesses st))
   \<and> download_excel_latest xlsx' initial_state = Rejected 400 ''No data to export''"
  by (cases businesses) (auto simp add: download_excel_def download_excel_latest_def initial_state_def)

theorem export_rejects_empty_witness:
  "download_excel (\<lambda>rows. []) (JArr []) None = Rejected 400 ''No data to export''
   \<and> download_excel (\<lambda>rows. []) JUndefined (Some ''a.xlsx'') = Rejected 400 ''No data to export''
   \<and> download_excel (\<lambda>rows. []) (JStr ''rows'') None = Rejected 400 ''No data to export''
   \<and> download_excel (\<lambda>rows. ''PK'') (JArr [JObj [(''name'', JStr ''Cafe'')]]) None
        = Attachment ''businesses.xlsx'' ''PK''
   \<and> download_excel_latest (\<lambda>rows. ''PK'') \<lparr>latestBusinesses = [], latestFilename = ''seo_usa.xlsx''\<rparr>
        = Rejected 400 ''No data to export''
   \<and> download_excel_latest (\<lambda>rows. ''PK'') \<lparr>latestBusinesses = [\<lparr>name = JStr ''Cafe'', address = JStr ''N/A'', phone = JStr ''N/A'',
          website = JStr ''N/A'', rating = JNum 4, reviews = JNum 12\<rparr>], latestFilename = ''seo_usa.xlsx''\<rparr>
        = Attachment ''seo_usa.xlsx'' ''PK''"
proof -
  have 1: "download_excel (\<lambda>rows. []) (JArr []) None = Rejected 400 ''No data to export''"
    using export_rejects_empty[of "JArr []" "\<lambda>rows. []" None] by simp
  have 2: "download_excel (\<lambda>rows. []) JUndefined (Some ''a.xlsx'') = Rejected 400 ''No data to export''"
    using export_rejects_empty[of JUndefined "\<lambda>rows. []" "Some ''a.xlsx''"] by simp
  have 3: "download_excel (\<lambda>rows. []) (JStr ''rows'') None = Rejected 400 ''No data to export''"
    using export_rejects_empty[of "JStr ''rows''" "\<lambda>rows. []" None] by simp
  have 4: "download_excel (\<lambda>rows. ''PK'') (JArr [JObj [(''name'', JStr ''Cafe'')]]) None
        = Attachment ''businesses.xlsx'' ''PK''"
    by (simp add: download_excel_def)
  have 5: "download_excel_latest (\<lambda>rows. ''PK'') \<lparr>latestBusinesses = [], latestFilename = ''seo_usa.xlsx''\<rparr>
        = Rejected 400 ''No data to export''"
    using export_rejects_empty[of _ _ _ _ _ "\<lparr>latestBusinesses = [], latestFilename = ''seo_usa.xlsx''\<rparr>" "\<lambda>rows. ''PK''"] by simp
  have 6: "download_excel_latest (\<lambda>rows. ''PK'') \<lparr>latestBusinesses = [\<lparr>name = JStr ''Cafe'', address = JStr ''N/A'', phone = JStr ''N/A'',
          website = JStr ''N/A'', rating = JNum 4, reviews = JNum 12\<rparr>], latestFilename = ''seo_usa.xlsx''\<rparr>
        = Attachment ''seo_usa.xlsx'' ''PK''"
    by (simp add: download_excel_latest_def)
  from 1 2 3 4 5 6 show ?thesis by simp
qed

section \<open>Properties of the markdown escaping\<close>

lemma replace_class_concat:
  "replace_class cls f s = concat (map (\<lambda>c. if cls c then f c else [c]) s)"
  by (induction s) simp_all

lemma backslash_not_reserved: "\<not> reserved backslash"
  by (simp add: reserved_def backslash_def)

lemma esc_reserved_preceded:
  "i < length (esc s) \<Longrightarrow> reserved (esc s ! i) \<Longrightarrow> 0 < i \<and> esc s ! (i - 1) = backslash"
proof (induction s arbitrary: i)
  case Nil
  then show ?case by (simp add: esc_def)
next
  case (Cons c cs)
  have unfold: "esc (c # cs) = (if reserved c then [backslash, c] else [c]) @ esc cs"
    by (simp add: esc_def)
  show ?case
  proof (cases "reserved c")
    case True
    then have e: "esc (c # cs) = backslash # c # esc cs" using unfold by simp
    show ?thesis
    proof (cases i)
      case 0
      with Cons.prems e backslash_not_reserved show ?thesis by simp
    next
      case (Suc j)
      show ?thesis
      proof (cases j)
        case 0
        with Suc e show ?thesis by simp
      next
        case (Suc k)
        with \<open>i = Suc j\<close> Cons.prems e have "k < length (esc cs)" "reserved (esc cs ! k)" by simp_all
        from Cons.IH[OF this] have "0 < k" "esc cs ! (k - 1) = backslash" by simp_all
        with Suc \<open>i = Suc j\<close> e show ?thesis by (cases k) simp_all
      qed
    qed
  next
    case False
    then have e: "esc (c # cs) = c # esc cs" using unfold by simp
    show ?thesis
    proof (cases i)
      case 0
      with Cons.prems e False show ?thesis by simp
    next
      case (Suc k)
      with Cons.prems e have "k < length (esc cs)" "reserved (esc cs ! k)" by simp_all
      from Cons.IH[OF this] have "0 < k" "esc cs ! (k - 1) = backslash" by simp_all
      with Suc e show ?thesis by (cases k) simp_all
    qed
  qed
qed

lemma length_esc: "length (esc s) = length s + length (filter reserved s)"
  by (induction s) (simp_all add: esc_def)

text \<open>
  Claim C5.  \<open>escapeMarkdown\<close> puts one backslash before every occurrence of a
  character of the reserved set and leaves every other character as it is: the result
  is the concatenation, character by character, of either the character or a backslash
  and the character.  In the result every reserved character stands directly after a
  backslash.  For \<open>A+B (test)\<close> the result is \<open>A\+B \(test\)\<close>.
\<close>

theorem escapeMarkdown_prefixes_reserved:
  "escapeMarkdown (JStr s) = Inr (esc s)
   \<and> esc s = concat (map (\<lambda>c. if reserved c then [backslash, c] else [c]) s)
   \<and> (\<forall>i < length (esc s). reserved (esc s ! i) \<longrightarrow> 0 < i \<and> esc s ! (i - 1) = backslash)
   \<and> escapeMarkdown (JStr ''A+B (test)'')
       = Inr (''A'' @ [backslash] @ ''+B '' @ [backslash] @ ''(test'' @ [backslash] @ '')'')"
proof (intro conjI allI impI)
  show "escapeMarkdown (JStr s) = Inr (esc s)" by (simp add: esc_def)
  show "esc s = concat (map (\<lambda>c. if reserved c then [backslash, c] else [c]) s)"
    by (simp add: esc_def replace_class_concat)
  show "0 < i" if "i < length (esc s)" "reserved (esc s ! i)" for i
    using esc_reserved_preceded[OF that] by simp
  show "esc s ! (i - 1) = backslash" if "i < length (esc s)" "reserved (esc s ! i)" for i
    using esc_reserved_preceded[OF that] by simp
  show "escapeMarkdown (JStr ''A+B (test)'')
       = Inr (''A'' @ [backslash] @ ''+B '' @ [backslash] @ ''(test'' @ [backslash] @ '')'')"
    by (simp add: reserved_def)
qed


theorem escapeMarkdown_prefixes_reserved_witness:
  "escapeMarkdown (JStr ''a.b'') = Inr [CHR ''a'', backslash, CHR ''.'', CHR ''b'']
   \<and> reserved (esc ''a.b'' ! 2) \<and> esc ''a.b'' ! (2 - 1) = backslash"
proof -
  have e: "esc ''a.b'' = [CHR ''a'', backslash, CHR ''.'', CHR ''b'']"
    by (simp add: esc_def reserved_def)
  have r: "reserved (esc ''a.b'' ! 2)"
    unfolding e by (simp add: reserved_def)
  have l: "2 < length (esc ''a.b'')"
    unfolding e by simp
  note main = escapeMarkdown_prefixes_reserved[of "''a.b''"]
  from main have "escapeMarkdown (JStr ''a.b'') = Inr (esc ''a.b'')"
    by (rule conjunct1)
  then have first: "escapeMarkdown (JStr ''a.b'') = Inr [CHR ''a'', backslash, CHR ''.'', CHR ''b'']"
    unfolding e .
  from main have "\<forall>i < length (esc ''a.b''). reserved (esc ''a.b'' ! i)
      \<longrightarrow> 0 < i \<and> esc ''a.b'' ! (i - 1) = backslash"
    by (elim conjE)
  with l r have "esc ''a.b'' ! (2 - 1) = backslash"
    by blast
  with first r show ?thesis
    by (intro conjI)
qed

section \<open>Properties of the command parser\<close>

text \<open>
  Splitting and trimming.  The segments of a split contain no separator, there is one
  more segment than there are separators, and joining them with the separator gives
  the text back.  A trimmed string is the string without its leading and trailing
  white space.
\<close>

lemma split_on_not_Nil: "split_on d s \<noteq> []"
  by (induction s) (simp_all split: list.splits)

lemma length_split_on: "length (split_on d s) = Suc (count_list s d)"
  by (induction s) (auto split: list.splits simp add: split_on_not_Nil)

lemma split_on_no_separator: "p \<in> set (split_on d s) \<Longrightarrow> d \<notin> set p"
  by (induction s arbitrary: p) (auto split: list.splits if_splits)

lemma join_split_on: "join [d] (split_on d s) = s"
proof (induction s)
  case Nil
  show ?case by simp
next
  case (Cons c cs)
  obtain p ps where ps: "split_on d cs = p # ps"
    using split_on_not_Nil[of d cs] by (cases "split_on d cs") auto
  show ?case
  proof (cases "c = d")
    case True
    with Cons ps show ?thesis by simp
  next
    case False
    with Cons ps show ?thesis by (cases ps) auto
  qed
qed

lemma length_command_parts:
  "length (command_parts text) = Suc (count_list (tl text) CHR '','')"
  by (simp add: command_parts_def length_split_on drop_Suc)

lemma trim_decompose:
  "\<exists>a b. s = a @ trim s @ b \<and> list_all is_space a \<and> list_all is_space b"
proof -
  let ?a = "takeWhile is_space s"
  let ?m = "dropWhile is_space s"
  let ?b = "rev (takeWhile is_space (rev ?m))"
  have "rev (rev ?m) = rev (takeWhile is_space (rev ?m) @ dropWhile is_space (rev ?m))"
    by (simp only: takeWhile_dropWhile_id)
  then have "?m = trim s @ ?b"
    by (simp only: rev_rev_ident rev_append trim_def)
  then have "s = ?a @ trim s @ ?b"
    by (metis takeWhile_dropWhile_id)
  moreover have "list_all is_space ?a"
    by (simp add: list_all_iff) (meson set_takeWhileD)
  moreover have "list_all is_space ?b"
    by (simp add: list_all_iff) (meson set_takeWhileD)
  ultimately show ?thesis by blast
qed

lemma trim_ends:
  assumes "trim s \<noteq> []"
  shows "\<not> is_space (hd (trim s))" and "\<not> is_space (last (trim s))"
proof -
  let ?m = "dropWhile is_space s"
  let ?r = "dropWhile is_space (rev ?m)"
  have t: "trim s = rev ?r" by (simp only: trim_def)
  with assms have r: "?r \<noteq> []" by (metis rev.simps(1))
  then have m: "?m \<noteq> []" by (metis dropWhile.simps(1) rev.simps(1))
  have "last (trim s) = hd ?r"
    using r by (simp only: t last_rev)
  moreover have "\<not> is_space (hd ?r)"
    using r by (rule hd_dropWhile)
  ultimately show "\<not> is_space (last (trim s))" by simp
  have "hd (trim s) = last ?r"
    using r by (simp only: t hd_rev)
  also have "\<dots> = last (rev ?m)"
    using r by (metis append_Nil2 last_appendR takeWhile_dropWhile_id)
  also have "\<dots> = hd ?m" using m by (simp only: last_rev)
  finally have "hd (trim s) = hd ?m" .
  moreover have "\<not> is_space (hd ?m)"
    using m by (rule hd_dropWhile)
  ultimately show "\<not> is_space (hd (trim s))" by simp
qed

text \<open>
  Claim C2.  For a text that starts with the sigil \<open>/\<close>, the rest is split at the
  commas and each segment is trimmed.  Fewer than 2 segments are a parse error;
  2 segments give keyword and country, with the empty city and the default engine;
  3 segments give keyword, city and country; 4 segments give keyword, city, country and
  engine.  Country and engine are put in lower case.  The three examples of the
  specification evaluate as it says.
\<close>

theorem parse_command_arity:
  assumes "startsWith_slash text"
  shows "command_parts text = map trim (split_on CHR '','' (tl text))
     \<and> length (command_parts text) = Suc (count_list (tl text) CHR '','')
     \<and> (length (command_parts text) < 2 \<longrightarrow> parse_command text = Inl BadFormat)
     \<and> (length (command_parts text) = 2 \<longrightarrow> parse_command text =
          Inr \<lparr>keyword = command_parts text ! 0, city = [],
               country = toLowerCase (command_parts text ! 1), engine = ''google_maps''\<rparr>)
     \<and> (length (command_parts text) = 3 \<longrightarrow> parse_command text =
          Inr \<lparr>keyword = command_parts text ! 0, city = command_parts text ! 1,
               country = toLowerCase (command_parts text ! 2), engine = ''google_maps''\<rparr>)
     \<and> (length (command_parts text) = 4 \<longrightarrow> parse_command text =
          Inr \<lparr>keyword = command_parts text ! 0, city = command_parts text ! 1,
               country = toLowerCase (command_parts text ! 2),
               engine = toLowerCase (command_parts text ! 3)\<rparr>)
     \<and> parse_command ''/seo,new york,usa'' =
          Inr \<lparr>keyword = ''seo'', city = ''new york'', country = ''usa'', engine = ''google_maps''\<rparr>
     \<and> parse_command ''/seo,usa'' =
          Inr \<lparr>keyword = ''seo'', city = [], country = ''usa'', engine = ''google_maps''\<rparr>
     \<and> parse_command ''/seo'' = Inl BadFormat"
proof (intro conjI impI)
  show "command_parts text = map trim (split_on CHR '','' (tl text))"
    by (simp add: command_parts_def drop_Suc)
  show "length (command_parts text) = Suc (count_list (tl text) CHR '','')"
    by (rule length_command_parts)
  show "parse_command text = Inl BadFormat" if "length (command_parts text) < 2"
    using assms that by (simp add: parse_command_def Let_def)
  show "parse_command text =
          Inr \<lparr>keyword = command_parts text ! 0, city = [],
               country = toLowerCase (command_parts text ! 1), engine = ''google_maps''\<rparr>"
    if "length (command_parts text) = 2"
    using assms that by (simp add: parse_command_def Let_def command_fields_def)
  show "parse_command text =
          Inr \<lparr>keyword = command_parts text ! 0, city = command_parts text ! 1,
               country = toLowerCase (command_parts text ! 2), engine = ''google_maps''\<rparr>"
    if "length (command_parts text) = 3"
    using assms that by (simp add: parse_command_def Let_def command_fields_def)
  show "parse_command text =
          Inr \<lparr>keyword = command_parts text ! 0, city = command_parts text ! 1,
               country = toLowerCase (command_parts text ! 2),
               engine = toLowerCase (command_parts text ! 3)\<rparr>"
    if "length (command_parts text) = 4"
    using assms that by (simp add: parse_command_def Let_def command_fields_def)
  show "parse_command ''/seo,new york,usa'' =
          Inr \<lparr>keyword = ''seo'', city = ''new york'', country = ''usa'', engine = ''google_maps''\<rparr>"
    by code_simp
  show "parse_command ''/seo,usa'' =
          Inr \<lparr>keyword = ''seo'', city = [], country = ''usa'', engine = ''google_maps''\<rparr>"
    by code_simp
  show "parse_command ''/seo'' = Inl BadFormat"
    by code_simp
qed

theorem parse_command_arity_witness:
  "startsWith_slash ''/ seo , New York , USA , Google''
   \<and> length (command_parts ''/ seo , New York , USA , Google'') = 4
   \<and> parse_command ''/ seo , New York , USA , Google'' =
        Inr \<lparr>keyword = ''seo'', city = ''New York'', country = ''usa'', engine = ''google''\<rparr>
   \<and> parse_command ''/plumber , Leeds, UK'' =
        Inr \<lparr>keyword = ''plumber'', city = ''Leeds'', country = ''uk'', engine = ''google_maps''\<rparr>
   \<and> parse_command ''/plumber,UK'' =
        Inr \<lparr>keyword = ''plumber'', city = [], country = ''uk'', engine = ''google_maps''\<rparr>
   \<and> parse_command ''/plumber'' = Inl BadFormat"
proof -
  have s: "startsWith_slash ''/ seo , New York , USA , Google''"
    "startsWith_slash ''/plumber , Leeds, UK''" "startsWith_slash ''/plumber,UK''"
    "startsWith_slash ''/plumber''"
    by (simp_all add: startsWith_slash_def)
  have p: "command_parts ''/ seo , New York , USA , Google'' = [''seo'', ''New York'', ''USA'', ''Google'']"
    "command_parts ''/plumber , Leeds, UK'' = [''plumber'', ''Leeds'', ''UK'']"
    "command_parts ''/plumber,UK'' = [''plumber'', ''UK'']"
    "command_parts ''/plumber'' = [''plumber'']"
    by code_simp+
  have l: "toLowerCase ''USA'' = ''usa''" "toLowerCase ''Google'' = ''google''"
    "toLowerCase ''UK'' = ''uk''"
    by code_simp+
  have 4: "parse_command ''/ seo , New York , USA , Google'' =
        Inr \<lparr>keyword = ''seo'', city = ''New York'', country = ''usa'', engine = ''google''\<rparr>"
    using parse_command_arity[OF s(1)] unfolding p by (simp add: l)
  have 3: "parse_command ''/plumber , Leeds, UK'' =
        Inr \<lparr>keyword = ''plumber'', city = ''Leeds'', country = ''uk'', engine = ''google_maps''\<rparr>"
    using parse_command_arity[OF s(2)] unfolding p by (simp add: l)
  have 2: "parse_command ''/plumber,UK'' =
        Inr \<lparr>keyword = ''plumber'', city = [], country = ''uk'', engine = ''google_maps''\<rparr>"
    using parse_command_arity[OF s(3)] unfolding p by (simp add: l)
  have 1: "parse_command ''/plumber'' = Inl BadFormat"
    using parse_command_arity[OF s(4)] unfolding p by simp
  from s(1) p(1) 4 3 2 1 show ?thesis by simp
qed

text \<open>
  Claim C9.  A command of five segments or more takes the keyword from the first
  segment, the city from the second and the country (in lower case) from the third;
  the segments after the third have no effect, and the engine is the default
  \<open>google_maps\<close>.  The engine segment is read only when there are exactly 4
  segments.
\<close>

theorem parse_command_five_or_more:
  "(startsWith_slash text \<and> 5 \<le> length (command_parts text) \<longrightarrow>
      parse_command text =
        Inr \<lparr>keyword = command_parts text ! 0, city = command_parts text ! 1,
             country = toLowerCase (command_parts text ! 2), engine = ''google_maps''\<rparr>)
   \<and> command_fields (p1 # p2 # p3 # p4 # p5 # rest) =
        \<lparr>keyword = p1, city = p2, country = toLowerCase p3, engine = ''google_maps''\<rparr>
   \<and> (length parts \<noteq> 4 \<longrightarrow> engine (command_fields parts) = ''google_maps'')
   \<and> (length parts = 4 \<longrightarrow> engine (command_fields parts) = toLowerCase (parts ! 3))"
  by (simp add: parse_command_def Let_def command_fields_def)

theorem parse_command_five_or_more_witness:
  "startsWith_slash ''/seo,new york,usa,bing_maps,extra''
   \<and> command_parts ''/seo,new york,usa,bing_maps,extra''
        = [''seo'', ''new york'', ''usa'', ''bing_maps'', ''extra'']
   \<and> parse_command ''/seo,new york,usa,bing_maps,extra'' =
        Inr \<lparr>keyword = ''seo'', city = ''new york'', country = ''usa'', engine = ''google_maps''\<rparr>
   \<and> engine (command_fields [''seo'', ''usa'']) = ''google_maps''
   \<and> engine (command_fields [''seo'', ''new york'', ''usa'', ''Bing_Maps'']) = ''bing_maps''"
proof -
  let ?t = "''/seo,new york,usa,bing_maps,extra''"
  have s: "startsWith_slash ?t"
    by (simp add: startsWith_slash_def)
  have p: "command_parts ?t = [''seo'', ''new york'', ''usa'', ''bing_maps'', ''extra'']"
    by code_simp
  have l: "toLowerCase ''usa'' = ''usa''" "toLowerCase ''Bing_Maps'' = ''bing_maps''"
    by code_simp+
  have "startsWith_slash ?t \<and> 5 \<le> length (command_parts ?t) \<longrightarrow>
      parse_command ?t =
        Inr \<lparr>keyword = command_parts ?t ! 0, city = command_parts ?t ! 1,
             country = toLowerCase (command_parts ?t ! 2), engine = ''google_maps''\<rparr>"
    using parse_command_five_or_more[of ?t] by (rule conjunct1)
  then have a: "parse_command ?t =
        Inr \<lparr>keyword = ''seo'', city = ''new york'', country = ''usa'', engine = ''google_maps''\<rparr>"
    unfolding p using s l by simp
  have b: "engine (command_fields [''seo'', ''usa'']) = ''google_maps''"
    using parse_command_five_or_more[of _ _ _ _ _ _ _ "[''seo'', ''usa'']"] by simp
  have c: "engine (command_fields [''seo'', ''new york'', ''usa'', ''Bing_Maps'']) = ''bing_maps''"
    using parse_command_five_or_more[of _ _ _ _ _ _ _ "[''seo'', ''new york'', ''usa'', ''Bing_Maps'']"] l by simp
  from s p a b c show ?thesis by (intro conjI)
qed

section \<open>Engine selection\<close>

text \<open>
  Claim C3, as stated, says that every search request whose engine is absent or outside
  the list of allowed engines proceeds with \<open>google_maps\<close>.  The chat interface does
  otherwise: the command \<open>/seo,new york,usa,yahoo\<close> is answered with the list of
  allowed engines and no search is made.
\<close>

theorem chat_invalid_engine_rejected:
  "parse_command ''/seo,new york,usa,yahoo'' = Inr yahoo_request
   \<and> engine yahoo_request \<notin> set allowedEngines
   \<and> telegram_webhook sample_serp offline_web (Some ''/seo,new york,usa,yahoo'') =
       ([Plain ''Allowed engines: google_maps, google, bing_maps, apple_maps''], ''Invalid engine'')
   \<and> telegram_webhook sample_serp offline_web (Some ''/seo,new york,usa,yahoo'') \<noteq>
       search_and_deliver sample_serp offline_web (yahoo_request\<lparr>engine := ''google_maps''\<rparr>)"
proof -
  have p: "parse_command ''/seo,new york,usa,yahoo'' = Inr yahoo_request"
    unfolding yahoo_request_def by code_simp
  have n: "engine yahoo_request \<notin> set allowedEngines"
    by (simp add: allowedEngines_def yahoo_request_def)
  have t: "telegram_webhook sample_serp offline_web (Some ''/seo,new york,usa,yahoo'') =
       ([Plain ''Allowed engines: google_maps, google, bing_maps, apple_maps''], ''Invalid engine'')"
    by (simp add: telegram_webhook_def p handle_request_def countryMap_def allowedEngines_def
        yahoo_request_def)
  have o: "snd (search_and_deliver sample_serp offline_web (yahoo_request\<lparr>engine := ''google_maps''\<rparr>))
      = ''OK''"
    by (simp add: search_and_deliver_def sample_serp_def Let_def split: prod.splits)
  have d: "telegram_webhook sample_serp offline_web (Some ''/seo,new york,usa,yahoo'') \<noteq>
       search_and_deliver sample_serp offline_web (yahoo_request\<lparr>engine := ''google_maps''\<rparr>)"
  proof
    assume "telegram_webhook sample_serp offline_web (Some ''/seo,new york,usa,yahoo'') =
       search_and_deliver sample_serp offline_web (yahoo_request\<lparr>engine := ''google_maps''\<rparr>)"
    then have "snd (telegram_webhook sample_serp offline_web (Some ''/seo,new york,usa,yahoo'')) =
       snd (search_and_deliver sample_serp offline_web (yahoo_request\<lparr>engine := ''google_maps''\<rparr>))"
      by (rule arg_cong)
    then have "''Invalid engine'' = ''OK''"
      unfolding t o by simp
    then show False by simp
  qed
  from p n t d show ?thesis by (intro conjI)
qed

lemma selectedEngine_default:
  "e \<notin> set (map JStr allowedEngines) \<Longrightarrow> selectedEngine e = JStr ''google_maps''"
  by (simp add: selectedEngine_def)

lemma search_call_engine:
  assumes "field body ''engine'' \<notin> set (map JStr allowedEngines)"
    and "search_call body = Inr (Inr (q, rg, sel))"
  shows "sel = JStr ''google_maps''"
proof -
  from assms(1) have s: "selectedEngine (field body ''engine'') = JStr ''google_maps''"
    by (rule selectedEngine_default)
  from assms(2) show ?thesis
    unfolding search_call_def s
    by (auto simp add: bind_err_def split: if_splits jsval.splits option.splits sum.splits)
qed

lemma search_call_override:
  assumes "field (JObj fs) ''engine'' \<notin> set (map JStr allowedEngines)"
  shows "search_call (JObj ((''engine'', JStr ''google_maps'') # fs)) = search_call (JObj fs)"
proof -
  have f: "field (JObj ((''engine'', JStr ''google_maps'') # fs)) ''keyword'' = field (JObj fs) ''keyword''"
    "field (JObj ((''engine'', JStr ''google_maps'') # fs)) ''country'' = field (JObj fs) ''country''"
    "field (JObj ((''engine'', JStr ''google_maps'') # fs)) ''city'' = field (JObj fs) ''city''"
    "field (JObj ((''engine'', JStr ''google_maps'') # fs)) ''engine'' = JStr ''google_maps''"
    by simp_all
  have s: "selectedEngine (field (JObj fs) ''engine'') = JStr ''google_maps''"
    using assms by (rule selectedEngine_default)
  have s': "selectedEngine (JStr ''google_maps'') = JStr ''google_maps''"
    by (simp add: selectedEngine_def)
  show ?thesis
    unfolding search_call_def f s s' by simp
qed

lemma search_call_proceeds:
  assumes "\<not> nullish body" and "field body ''keyword'' = JStr k" and "k \<noteq> []"
    and "field body ''country'' = JStr c" and "map_of countryMap (toLowerCase c) = Some code"
    and "\<not> truthy (field body ''city'')"
    and "field body ''engine'' \<notin> set (map JStr allowedEngines)"
  shows "search_call body = Inr (Inr (k @ '' in '' @ c, Region code, JStr ''google_maps''))"
proof -
  from assms(7) have s: "selectedEngine (field body ''engine'') = JStr ''google_maps''"
    by (rule selectedEngine_default)
  from assms(3,4) have c: "c \<noteq> []"
    using assms(5) by (auto simp add: countryMap_def toLowerCase_def split: if_splits)
  show ?thesis
    unfolding search_call_def s
    using assms(1-6) c by (simp add: countryMap_get_def bind_err_def)
qed

text \<open>
  Claim C3, amended.  In the route \<open>/search\<close> a request whose engine is absent or not
  in the list of allowed engines is handled exactly as the same request with the
  engine \<open>google_maps\<close>: whenever the handler calls the search, the engine of the call
  is \<open>google_maps\<close>, and a request with a non-empty keyword, a country of the country
  table and no city does call the search, with \<open>google_maps\<close>.  In the chat interface
  the engine is \<open>google_maps\<close> whenever the command does not have exactly 4 segments.
  A command whose country is in the country table and whose engine is not in the list
  is rejected with the message that names the allowed engines, by the webhook and by
  the validation of the polling bot alike, and no search is made; a command whose
  country is not in the table is rejected by the webhook with the message that names
  the allowed countries, whatever its engine; only a command with a country of the
  table and an allowed engine is searched.
\<close>

theorem engine_selection:
  "(e = JUndefined \<or> e \<notin> set (map JStr allowedEngines)
      \<longrightarrow> selectedEngine e = JStr ''google_maps'')
   \<and> (e \<in> set (map JStr allowedEngines) \<longrightarrow> selectedEngine e = e)
   \<and> selectedEngine e \<in> set (map JStr allowedEngines)
   \<and> (field body ''engine'' \<notin> set (map JStr allowedEngines)
        \<and> search_call body = Inr (Inr (q, rg, sel)) \<longrightarrow> sel = JStr ''google_maps'')
   \<and> (field (JObj fs) ''engine'' \<notin> set (map JStr allowedEngines) \<longrightarrow>
        search_route hserp (JObj ((''engine'', JStr ''google_maps'') # fs))
          = search_route hserp (JObj fs))
   \<and> (\<not> nullish body \<and> field body ''keyword'' = JStr k \<and> k \<noteq> []
        \<and> field body ''country'' = JStr c \<and> map_of countryMap (toLowerCase c) = Some code
        \<and> \<not> truthy (field body ''city'')
        \<and> field body ''engine'' \<notin> set (map JStr allowedEngines) \<longrightarrow>
        search_call body = Inr (Inr (k @ '' in '' @ c, Region code, JStr ''google_maps''))
        \<and> search_route hserp body =
            (case normalize_all (hserp (k @ '' in '' @ c) (Region code) (JStr ''google_maps'')) of
               Inl err \<Rightarrow> Inr (ServerError ''Failed to fetch data from SerpAPI'')
             | Inr businesses \<Rightarrow> Inr (Businesses businesses)))
   \<and> (length parts \<noteq> 4 \<longrightarrow> engine (command_fields parts) = ''google_maps'')
   \<and> (country r \<in> set (map fst countryMap) \<and> engine r \<notin> set allowedEngines \<longrightarrow>
        handle_request serp web r =
          ([Plain ''Allowed engines: google_maps, google, bing_maps, apple_maps''], ''Invalid engine''))
   \<and> (country r \<in> set (map fst countryMap) \<and> engine r \<notin> set allowedEngines \<longrightarrow>
        polling_validate r =
          Some (Plain ''Allowed engines: google_maps, google, bing_maps, apple_maps''))
   \<and> (country r \<notin> set (map fst countryMap) \<longrightarrow>
        handle_request serp web r =
          ([Plain ''Allowed countries: usa, uk, australia, canada''], ''Invalid country''))
   \<and> (country r \<in> set (map fst countryMap) \<and> engine r \<in> set allowedEngines \<longrightarrow>
        handle_request serp web r = search_and_deliver serp web r)
   \<and> (msg \<noteq> [] \<and> parse_command msg = Inr r \<longrightarrow>
        telegram_webhook serp web (Some msg) = handle_request serp web r)"
proof (intro conjI impI)
  show "selectedEngine e = JStr ''google_maps''"
    if "e = JUndefined \<or> e \<notin> set (map JStr allowedEngines)"
    using that by (auto simp add: selectedEngine_def allowedEngines_def)
  show "selectedEngine e = e" if "e \<in> set (map JStr allowedEngines)"
    using that by (simp add: selectedEngine_def)
  show "selectedEngine e \<in> set (map JStr allowedEngines)"
    by (simp add: selectedEngine_def allowedEngines_def)
  show "sel = JStr ''google_maps''"
    if "field body ''engine'' \<notin> set (map JStr allowedEngines)
        \<and> search_call body = Inr (Inr (q, rg, sel))"
    using that search_call_engine by blast
  show "search_route hserp (JObj ((''engine'', JStr ''google_maps'') # fs))
          = search_route hserp (JObj fs)"
    if "field (JObj fs) ''engine'' \<notin> set (map JStr allowedEngines)"
    unfolding search_route_def search_call_override[OF that] ..
  assume w: "\<not> nullish body \<and> field body ''keyword'' = JStr k \<and> k \<noteq> []
        \<and> field body ''country'' = JStr c \<and> map_of countryMap (toLowerCase c) = Some code
        \<and> \<not> truthy (field body ''city'')
        \<and> field body ''engine'' \<notin> set (map JStr allowedEngines)"
  then show call: "search_call body = Inr (Inr (k @ '' in '' @ c, Region code, JStr ''google_maps''))"
    by (intro search_call_proceeds) simp_all
  show "search_route hserp body =
            (case normalize_all (hserp (k @ '' in '' @ c) (Region code) (JStr ''google_maps'')) of
               Inl err \<Rightarrow> Inr (ServerError ''Failed to fetch data from SerpAPI'')
             | Inr businesses \<Rightarrow> Inr (Businesses businesses))"
    unfolding search_route_def call by simp
next
  show "engine (command_fields parts) = ''google_maps''" if "length parts \<noteq> 4"
    using that by (simp add: command_fields_def)
  have j: "join '', '' allowedEngines = ''google_maps, google, bing_maps, apple_maps''"
    by (simp add: allowedEngines_def)
  show "handle_request serp web r =
          ([Plain ''Allowed engines: google_maps, google, bing_maps, apple_maps''], ''Invalid engine'')"
    if "country r \<in> set (map fst countryMap) \<and> engine r \<notin> set allowedEngines"
    using that j by (simp add: handle_request_def)
  show "polling_validate r =
          Some (Plain ''Allowed engines: google_maps, google, bing_maps, apple_maps'')"
    if "country r \<in> set (map fst countryMap) \<and> engine r \<notin> set allowedEngines"
  proof -
    from that have "map_of countryMap (country r) \<noteq> None"
      by (simp add: map_of_eq_None_iff)
    then have "countryMap_get (country r) \<noteq> None"
      by (auto simp add: countryMap_get_def)
    with that j show ?thesis by (simp add: polling_validate_def)
  qed
  show "handle_request serp web r =
          ([Plain ''Allowed countries: usa, uk, australia, canada''], ''Invalid country'')"
    if "country r \<notin> set (map fst countryMap)"
    using that by (simp add: handle_request_def)
  show "handle_request serp web r = search_and_deliver serp web r"
    if "country r \<in> set (map fst countryMap) \<and> engine r \<in> set allowedEngines"
    using that by (simp add: handle_request_def)
  show "telegram_webhook serp web (Some msg) = handle_request serp web r"
    if "msg \<noteq> [] \<and> parse_command msg = Inr r"
    using that by (simp add: telegram_webhook_def)
qed

theorem engine_selection_witness:
  "selectedEngine JUndefined = JStr ''google_maps''
   \<and> selectedEngine (JStr ''yahoo'') = JStr ''google_maps''
   \<and> selectedEngine (JStr ''bing_maps'') = JStr ''bing_maps''
   \<and> search_call (JObj yahoo_body) = Inr (Inr (''seo in USA'', Region ''us'', JStr ''google_maps''))
   \<and> search_route sample_search (JObj yahoo_body) =
        Inr (Businesses [\<lparr>name = JStr ''google_maps'', address = JStr ''seo in USA'',
          phone = JStr ''N/A'', website = JStr ''N/A'', rating = JStr ''N/A'', reviews = JStr ''N/A''\<rparr>])
   \<and> search_route sample_search (JObj ((''engine'', JStr ''google_maps'') # yahoo_body))
        = search_route sample_search (JObj yahoo_body)
   \<and> engine (command_fields [''seo'', ''new york'', ''usa'']) = ''google_maps''
   \<and> handle_request sample_serp offline_web yahoo_request =
        ([Plain ''Allowed engines: google_maps, google, bing_maps, apple_maps''], ''Invalid engine'')
   \<and> polling_validate yahoo_request =
        Some (Plain ''Allowed engines: google_maps, google, bing_maps, apple_maps'')
   \<and> handle_request sample_serp offline_web (yahoo_request\<lparr>country := ''mars''\<rparr>) =
        ([Plain ''Allowed countries: usa, uk, australia, canada''], ''Invalid country'')
   \<and> handle_request sample_serp offline_web (yahoo_request\<lparr>engine := ''bing_maps''\<rparr>) =
        search_and_deliver sample_serp offline_web (yahoo_request\<lparr>engine := ''bing_maps''\<rparr>)
   \<and> telegram_webhook sample_serp offline_web (Some ''/seo,new york,usa,yahoo'') =
        handle_request sample_serp offline_web yahoo_request"
proof -
  have 1: "selectedEngine JUndefined = JStr ''google_maps''"
    using engine_selection[where e = JUndefined, THEN conjunct1] by simp
  have ny: "JStr ''yahoo'' \<notin> set (map JStr allowedEngines)"
    by (simp add: allowedEngines_def)
  then have 2: "selectedEngine (JStr ''yahoo'') = JStr ''google_maps''"
    using engine_selection[where e = "JStr ''yahoo''", THEN conjunct1] by blast
  have "JStr ''bing_maps'' \<in> set (map JStr allowedEngines)"
    by (simp add: allowedEngines_def)
  then have 3: "selectedEngine (JStr ''bing_maps'') = JStr ''bing_maps''"
    using engine_selection[where e = "JStr ''bing_maps''", THEN conjunct2, THEN conjunct1] by blast
  have b: "\<not> nullish (JObj yahoo_body)" "field (JObj yahoo_body) ''keyword'' = JStr ''seo''"
    "''seo'' \<noteq> []" "field (JObj yahoo_body) ''country'' = JStr ''USA''"
    "\<not> truthy (field (JObj yahoo_body) ''city'')"
    "field (JObj yahoo_body) ''engine'' = JStr ''yahoo''"
    by (simp_all add: yahoo_body_def)
  have lc: "toLowerCase ''USA'' = ''usa''" by code_simp
  have cm: "map_of countryMap (toLowerCase ''USA'') = Some ''us''"
    unfolding lc by (simp add: countryMap_def)
  have be: "field (JObj yahoo_body) ''engine'' \<notin> set (map JStr allowedEngines)"
    unfolding b(6) by (rule ny)
  have pre: "\<not> nullish (JObj yahoo_body) \<and> field (JObj yahoo_body) ''keyword'' = JStr ''seo''
        \<and> ''seo'' \<noteq> [] \<and> field (JObj yahoo_body) ''country'' = JStr ''USA''
        \<and> map_of countryMap (toLowerCase ''USA'') = Some ''us''
        \<and> \<not> truthy (field (JObj yahoo_body) ''city'')
        \<and> field (JObj yahoo_body) ''engine'' \<notin> set (map JStr allowedEngines)"
    using b(1-5) cm be by (intro conjI)
  note h3 = engine_selection[where body = "JObj yahoo_body" and k = "''seo''" and c = "''USA''"
      and code = "''us''" and hserp = sample_search, THEN conjunct2, THEN conjunct2, THEN conjunct2, THEN conjunct2, THEN conjunct2, THEN conjunct1, THEN mp, OF pre]
  from h3 have 4: "search_call (JObj yahoo_body) = Inr (Inr (''seo in USA'', Region ''us'', JStr ''google_maps''))"
    by simp
  from h3 have "search_route sample_search (JObj yahoo_body) =
            (case normalize_all (sample_search (''seo'' @ '' in '' @ ''USA'') (Region ''us'') (JStr ''google_maps'')) of
               Inl err \<Rightarrow> Inr (ServerError ''Failed to fetch data from SerpAPI'')
             | Inr businesses \<Rightarrow> Inr (Businesses businesses))"
    by (rule conjunct2)
  then have 5: "search_route sample_search (JObj yahoo_body) =
        Inr (Businesses [\<lparr>name = JStr ''google_maps'', address = JStr ''seo in USA'',
          phone = JStr ''N/A'', website = JStr ''N/A'', rating = JStr ''N/A'', reviews = JStr ''N/A''\<rparr>])"
    by (simp add: sample_search_def normalize_all_def normalize_def js_or_def)
  have 6: "search_route sample_search (JObj ((''engine'', JStr ''google_maps'') # yahoo_body))
        = search_route sample_search (JObj yahoo_body)"
    by (rule engine_selection[where fs = yahoo_body and hserp = sample_search, THEN conjunct2, THEN conjunct2, THEN conjunct2, THEN conjunct2, THEN conjunct1, THEN mp, OF be])
  have "length [''seo'', ''new york'', ''usa''] \<noteq> 4" by simp
  then have 7: "engine (command_fields [''seo'', ''new york'', ''usa'']) = ''google_maps''"
    by (rule engine_selection[where parts = "[''seo'', ''new york'', ''usa'']", THEN conjunct2, THEN conjunct2, THEN conjunct2, THEN conjunct2, THEN conjunct2, THEN conjunct2, THEN conjunct1, THEN mp])
  have y: "country yahoo_request \<in> set (map fst countryMap) \<and> engine yahoo_request \<notin> set allowedEngines"
    by (simp add: yahoo_request_def countryMap_def allowedEngines_def)
  have 8: "handle_request sample_serp offline_web yahoo_request =
        ([Plain ''Allowed engines: google_maps, google, bing_maps, apple_maps''], ''Invalid engine'')"
    by (rule engine_selection[where r = yahoo_request and serp = sample_serp and web = offline_web,
          THEN conjunct2, THEN conjunct2, THEN conjunct2, THEN conjunct2, THEN conjunct2, THEN conjunct2, THEN conjunct2, THEN conjunct1, THEN mp, OF y])
  have 9: "polling_validate yahoo_request =
        Some (Plain ''Allowed engines: google_maps, google, bing_maps, apple_maps'')"
    by (rule engine_selection[where r = yahoo_request, THEN conjunct2, THEN conjunct2, THEN conjunct2, THEN conjunct2, THEN conjunct2, THEN conjunct2, THEN conjunct2, THEN conjunct2, THEN conjunct1, THEN mp, OF y])
  have m: "country (yahoo_request\<lparr>country := ''mars''\<rparr>) \<notin> set (map fst countryMap)"
    by (simp add: countryMap_def)
  have 10: "handle_request sample_serp offline_web (yahoo_request\<lparr>country := ''mars''\<rparr>) =
        ([Plain ''Allowed countries: usa, uk, australia, canada''], ''Invalid country'')"
    by (rule engine_selection[where r = "yahoo_request\<lparr>country := ''mars''\<rparr>"
          and serp = sample_serp and web = offline_web, THEN conjunct2, THEN conjunct2, THEN conjunct2, THEN conjunct2, THEN conjunct2, THEN conjunct2, THEN conjunct2, THEN conjunct2, THEN conjunct2, THEN conjunct1, THEN mp, OF m])
  have g: "country (yahoo_request\<lparr>engine := ''bing_maps''\<rparr>) \<in> set (map fst countryMap)
      \<and> engine (yahoo_request\<lparr>engine := ''bing_maps''\<rparr>) \<in> set allowedEngines"
    by (simp add: yahoo_request_def countryMap_def allowedEngines_def)
  have 11: "handle_request sample_serp offline_web (yahoo_request\<lparr>engine := ''bing_maps''\<rparr>) =
        search_and_deliver sample_serp offline_web (yahoo_request\<lparr>engine := ''bing_maps''\<rparr>)"
    by (rule engine_selection[where r = "yahoo_request\<lparr>engine := ''bing_maps''\<rparr>"
          and serp = sample_serp and web = offline_web, THEN conjunct2, THEN conjunct2, THEN conjunct2, THEN conjunct2, THEN conjunct2, THEN conjunct2, THEN conjunct2, THEN conjunct2, THEN conjunct2, THEN conjunct2, THEN conjunct1, THEN mp, OF g])
  have p: "parse_command ''/seo,new york,usa,yahoo'' = Inr yahoo_request"
    unfolding yahoo_request_def by code_simp
  have t: "''/seo,new york,usa,yahoo'' \<noteq> [] \<and> parse_command ''/seo,new york,usa,yahoo'' = Inr yahoo_request"
    using p by simp
  have 12: "telegram_webhook sample_serp offline_web (Some ''/seo,new york,usa,yahoo'') =
        handle_request sample_serp offline_web yahoo_request"
    by (rule engine_selection[where r = yahoo_request and serp = sample_serp and web = offline_web
          and msg = "''/seo,new york,usa,yahoo''", THEN conjunct2, THEN conjunct2, THEN conjunct2, THEN conjunct2, THEN conjunct2, THEN conjunct2, THEN conjunct2, THEN conjunct2, THEN conjunct2, THEN conjunct2, THEN conjunct2, THEN mp, OF t])
  from 1 2 3 4 5 6 7 8 9 10 11 12 show ?thesis by (intro conjI)
qed

section \<open>Properties of the chat delivery\<close>

text \<open>
  Claim C10, as stated, says that a record whose field \<open>reviews\<close> is absent or falsy
  is rendered with the review count \<open>0\<close>.  The value \<open>false\<close> is falsy, and it is
  rendered as \<open>false\<close>: the conversion to a string comes before the fallback.
\<close>

theorem chat_reviews_false_rendered:
  "\<not> truthy (field false_reviews_record ''reviews'')
   \<and> reviews_text false_reviews_record = Inr ''false''
   \<and> rating_line false_reviews_record = Inr (''Rating: N/A (false reviews)'' @ [CHR 0x0A])"
  by (simp add: false_reviews_record_def reviews_text_def rating_text_def rating_line_def
      bind_err_def opt_toString_def js_or_def reserved_def)

lemma digits_0: "digits 0 = ''0''"
  by (simp add: digits.simps)

lemma num_to_string_0: "num_to_string 0 = ''0''"
  by (simp add: num_to_string_def digits_0)

lemma esc_NA: "escapeMarkdown (JStr ''N/A'') = Inr ''N/A''"
  by (simp add: reserved_def)

lemma esc_0: "escapeMarkdown (JStr ''0'') = Inr ''0''"
  by (simp add: reserved_def)

text \<open>
  Claim C10, amended.  In the chat delivery a record whose field \<open>reviews\<close> is
  absent, \<open>null\<close>, the number \<open>0\<close> or the empty string is rendered with the review
  count \<open>0\<close>, where the normalization gives \<open>N/A\<close> (when \<open>review_count\<close> is
  absent or falsy too).  The rating of the same line is \<open>N/A\<close> when the field
  \<open>rating\<close> is absent, \<open>null\<close> or the empty string; a rating \<open>0\<close> is rendered
  as \<open>0\<close>.
\<close>

theorem chat_reviews_default_zero:
  "(field b ''reviews'' \<in> {JUndefined, JNull, JNum 0, JStr []} \<longrightarrow> reviews_text b = Inr ''0'')
   \<and> (field b ''rating'' \<in> {JUndefined, JNull, JStr []} \<longrightarrow> rating_text b = Inr ''N/A'')
   \<and> (field b ''rating'' = JNum 0 \<longrightarrow> rating_text b = Inr ''0'')
   \<and> (field b ''reviews'' \<in> {JUndefined, JNull, JNum 0, JStr []}
        \<and> field b ''rating'' \<in> {JUndefined, JNull, JStr []}
      \<longrightarrow> rating_line b = Inr (''Rating: N/A (0 reviews)'' @ [CHR 0x0A]))
   \<and> (\<not> nullish b \<and> \<not> truthy (field b ''reviews'') \<and> \<not> truthy (field b ''review_count'')
      \<longrightarrow> (\<exists>r. normalize b = Inr r \<and> reviews r = JStr ''N/A''))"
proof (intro conjI impI)
  show v: "reviews_text b = Inr ''0''" if "field b ''reviews'' \<in> {JUndefined, JNull, JNum 0, JStr []}"
    using that
    by (auto simp add: reviews_text_def bind_err_def opt_toString_def js_or_def num_to_string_0 esc_0
        simp del: escapeMarkdown.simps)
  show r: "rating_text b = Inr ''N/A''" if "field b ''rating'' \<in> {JUndefined, JNull, JStr []}"
    using that
    by (auto simp add: rating_text_def bind_err_def opt_toString_def js_or_def esc_NA
        simp del: escapeMarkdown.simps)
  show "rating_text b = Inr ''0''" if "field b ''rating'' = JNum 0"
    using that
    by (simp add: rating_text_def bind_err_def opt_toString_def js_or_def num_to_string_0 esc_0
        del: escapeMarkdown.simps)
  show "rating_line b = Inr (''Rating: N/A (0 reviews)'' @ [CHR 0x0A])"
    if "field b ''reviews'' \<in> {JUndefined, JNull, JNum 0, JStr []}
        \<and> field b ''rating'' \<in> {JUndefined, JNull, JStr []}"
    using that v r by (simp add: rating_line_def bind_err_def)
  show "\<exists>r. normalize b = Inr r \<and> reviews r = JStr ''N/A''"
    if "\<not> nullish b \<and> \<not> truthy (field b ''reviews'') \<and> \<not> truthy (field b ''review_count'')"
    using that by (simp add: normalize_def js_or_def)
qed

theorem chat_reviews_default_zero_witness:
  "reviews_text zero_reviews_record = Inr ''0''
   \<and> rating_text zero_reviews_record = Inr ''N/A''
   \<and> rating_line zero_reviews_record = Inr (''Rating: N/A (0 reviews)'' @ [CHR 0x0A])
   \<and> rating_text (JObj [(''rating'', JNum 0)]) = Inr ''0''
   \<and> normalize zero_reviews_record = Inr \<lparr>name = JStr ''Acme'', address = JStr ''N/A'',
        phone = JStr ''N/A'', website = JStr ''N/A'', rating = JStr ''N/A'', reviews = JStr ''N/A''\<rparr>"
proof -
  have f: "field zero_reviews_record ''reviews'' = JNum 0"
    "field zero_reviews_record ''rating'' = JUndefined"
    "field zero_reviews_record ''review_count'' = JUndefined"
    "\<not> nullish zero_reviews_record"
    by (simp_all add: zero_reviews_record_def)
  note main = chat_reviews_default_zero[of zero_reviews_record]
  have 1: "reviews_text zero_reviews_record = Inr ''0''"
    using main f by simp
  have 2: "rating_text zero_reviews_record = Inr ''N/A''"
    using main f by simp
  have 3: "rating_line zero_reviews_record = Inr (''Rating: N/A (0 reviews)'' @ [CHR 0x0A])"
    using main f by simp
  have 4: "rating_text (JObj [(''rating'', JNum 0)]) = Inr ''0''"
    using chat_reviews_default_zero[of "JObj [(''rating'', JNum 0)]"] by simp
  from main f obtain r where r: "normalize zero_reviews_record = Inr r" "reviews r = JStr ''N/A''"
    by auto
  have "normalize zero_reviews_record = Inr \<lparr>name = JStr ''Acme'', address = JStr ''N/A'',
        phone = JStr ''N/A'', website = JStr ''N/A'', rating = JStr ''N/A'', reviews = reviews r\<rparr>"
    unfolding r(2) by (simp add: normalize_def zero_reviews_record_def js_or_def)
  then have 5: "normalize zero_reviews_record = Inr \<lparr>name = JStr ''Acme'', address = JStr ''N/A'',
        phone = JStr ''N/A'', website = JStr ''N/A'', rating = JStr ''N/A'', reviews = JStr ''N/A''\<rparr>"
    unfolding r(2) .
  from 1 2 3 4 5 show ?thesis by (intro conjI)
qed

lemma acme_message:
  "record_message offline_web (JObj [(''title'', JStr ''Acme'')]) =
     Inr (''*Acme*'' @ [CHR 0x0A] @ ''Address: N/A'' @ [CHR 0x0A] @ ''Phone: N/A'' @ [CHR 0x0A]
          @ ''Website: N/A'' @ [CHR 0x0A] @ ''Rating: N/A (0 reviews)'' @ [CHR 0x0A]
          @ ''Emails: None found'' @ [CHR 0x0A])"
  by (simp add: record_message_def rating_line_def rating_text_def reviews_text_def emails_line_def
      bind_err_def opt_toString_def js_or_def reserved_def)

lemma deliver_replicate_ok:
  "record_message web b = Inr m \<Longrightarrow> deliver web (replicate n b) = (replicate n (Markdown m), True)"
  by (induction n) simp_all

text \<open>
  Claim C7, as stated, bounds the chat messages of one search by 10.  The handler
  announces the search with a message of its own before it delivers the records: for
  a search with twelve results it sends eleven messages, the announcement and one for
  each of the first ten records.
\<close>

theorem chat_eleven_messages:
  "length (twelve_serp ''seo in usa'' (Some ''us'') ''google_maps'') = 12
   \<and> fst (telegram_webhook twelve_serp offline_web (Some ''/seo,usa'')) =
       Markdown ''Searching for *seo* in *N/A, USA* using *google_maps*''
         # replicate 10 (Markdown acme_text)
   \<and> length (fst (telegram_webhook twelve_serp offline_web (Some ''/seo,usa''))) = 11
   \<and> \<not> length (fst (telegram_webhook twelve_serp offline_web (Some ''/seo,usa''))) \<le> 10"
proof -
  have p: "parse_command ''/seo,usa'' =
      Inr \<lparr>keyword = ''seo'', city = [], country = ''usa'', engine = ''google_maps''\<rparr>"
    by code_simp
  have a: "announcement \<lparr>keyword = ''seo'', city = [], country = ''usa'', engine = ''google_maps''\<rparr>
      = Markdown ''Searching for *seo* in *N/A, USA* using *google_maps*''"
    by code_simp
  have t: "take 10 (replicate 12 (JObj [(''title'', JStr ''Acme'')]))
      = replicate 10 (JObj [(''title'', JStr ''Acme'')])"
    by simp
  have m: "record_message offline_web (JObj [(''title'', JStr ''Acme'')]) = Inr acme_text"
    unfolding acme_text_def by (rule acme_message)
  have f: "fst (telegram_webhook twelve_serp offline_web (Some ''/seo,usa'')) =
       Markdown ''Searching for *seo* in *N/A, USA* using *google_maps*''
         # replicate 10 (Markdown acme_text)"
    by (simp add: telegram_webhook_def p handle_request_def countryMap_def allowedEngines_def
        search_and_deliver_def twelve_serp_def Let_def t deliver_replicate_ok[OF m] a)
  have l: "length (fst (telegram_webhook twelve_serp offline_web (Some ''/seo,usa''))) = 11"
    unfolding f by simp
  have n: "length (twelve_serp ''seo in usa'' (Some ''us'') ''google_maps'') = 12"
    by (simp add: twelve_serp_def)
  from n f l show ?thesis by simp
qed

text \<open>
  The loop sends at most one message for each record; when a record raises, the
  messages sent and the notice together are no more than the records.
\<close>

lemma deliver_length:
  "deliver web rs = (ms, ok) \<Longrightarrow> length ms + (if ok then 0 else 1) \<le> length rs"
proof (induction rs arbitrary: ms ok)
  case Nil
  then show ?case by simp
next
  case (Cons b bs)
  show ?case
  proof (cases "record_message web b")
    case (Inl e)
    with Cons.prems show ?thesis by simp
  next
    case (Inr m)
    obtain ms' ok' where d: "deliver web bs = (ms', ok')" by (cases "deliver web bs")
    with Inr Cons.prems have "ms = Markdown m # ms'" "ok = ok'" by simp_all
    with Cons.IH[OF d] show ?thesis by simp
  qed
qed

lemma search_and_deliver_shape:
  "\<exists>ms notice. fst (search_and_deliver serp web r) = announcement r # ms @ notice
     \<and> ms = fst (deliver web (take 10 (serp (search_query r) (map_of countryMap (country r)) (engine r))))
     \<and> length ms \<le> 10 \<and> length ms + length notice \<le> 10"
proof -
  let ?raw = "serp (search_query r) (map_of countryMap (country r)) (engine r)"
  obtain ms ok where d: "deliver web (take 10 ?raw) = (ms, ok)"
    by (cases "deliver web (take 10 ?raw)")
  from deliver_length[OF d] have l: "length ms + (if ok then 0 else 1) \<le> 10"
    by simp
  show ?thesis
  proof (cases "length ?raw = 0")
    case True
    then have "fst (search_and_deliver serp web r) = announcement r # [] @ [Plain ''No businesses found.'']"
      by (simp add: search_and_deliver_def Let_def)
    moreover from True have "fst (deliver web (take 10 ?raw)) = []" by simp
    ultimately show ?thesis by (intro exI[of _ "[]"] exI[of _ "[Plain ''No businesses found.'']"]) simp
  next
    case False
    then have "fst (search_and_deliver serp web r)
        = announcement r # ms @ (if ok then [] else [Plain ''Something went wrong. Try again later.''])"
      using d by (simp add: search_and_deliver_def Let_def)
    with d l show ?thesis
      by (intro exI[of _ ms] exI[of _ "if ok then [] else [Plain ''Something went wrong. Try again later.'']"])
         (simp split: if_splits)
  qed
qed

lemma search_and_deliver_length: "length (fst (search_and_deliver serp web r)) \<le> 11"
proof -
  from search_and_deliver_shape[of serp web r] obtain ms notice where
    "fst (search_and_deliver serp web r) = announcement r # ms @ notice"
    "length ms + length notice \<le> 10" by blast
  then show ?thesis by simp
qed

lemma search_and_deliver_take:
  "search_and_deliver (\<lambda>q gl e. take 10 (serp q gl e)) web r = search_and_deliver serp web r"
  by (simp add: search_and_deliver_def Let_def)

lemma handle_request_length: "length (fst (handle_request serp web r)) \<le> 11"
  using search_and_deliver_length[of serp web r] by (simp add: handle_request_def)

text \<open>
  Claim C7, amended.  For every search issued through the chat interface, at most 10
  record messages are sent, whatever the number of raw results: they are the messages
  of the loop over the first 10 records, and the records after the tenth have no
  effect on what is sent.  With the announcement that precedes them, and the notice
  that replaces the rest when there is no result or when a record raises, the
  handler answers a command with at most 11 chat messages.
\<close>

theorem chat_message_bound:
  "length (fst (telegram_webhook serp web message_text)) \<le> 11
   \<and> telegram_webhook (\<lambda>q gl e. take 10 (serp q gl e)) web message_text
       = telegram_webhook serp web message_text
   \<and> (\<exists>ms notice. fst (search_and_deliver serp web r) = announcement r # ms @ notice
         \<and> ms = fst (deliver web (take 10
                  (serp (search_query r) (map_of countryMap (country r)) (engine r))))
         \<and> length ms \<le> 10 \<and> length ms + length notice \<le> 10)"
proof (intro conjI)
  show "length (fst (telegram_webhook serp web message_text)) \<le> 11"
    using handle_request_length[of serp web]
    by (simp add: telegram_webhook_def format_help_def split: option.splits sum.splits parse_error.splits)
  show "telegram_webhook (\<lambda>q gl e. take 10 (serp q gl e)) web message_text
       = telegram_webhook serp web message_text"
    by (simp add: telegram_webhook_def handle_request_def search_and_deliver_take
        split: option.splits sum.splits parse_error.splits)
  show "\<exists>ms notice. fst (search_and_deliver serp web r) = announcement r # ms @ notice
         \<and> ms = fst (deliver web (take 10
                  (serp (search_query r) (map_of countryMap (country r)) (engine r))))
         \<and> length ms \<le> 10 \<and> length ms + length notice \<le> 10"
    by (rule search_and_deliver_shape)
qed

theorem chat_message_bound_witness:
  "length (fst (telegram_webhook twelve_serp offline_web (Some ''/seo,usa''))) \<le> 11"
  using chat_message_bound[of twelve_serp offline_web "Some ''/seo,usa''"] by (rule conjunct1)

section \<open>Properties of the email extractor\<close>

lemma matches_Cons_iff:
  "matches ((cls, lo, hi) # its) s \<longleftrightarrow>
     (\<exists>a b. s = a @ b \<and> lo \<le> length a \<and> (case hi of None \<Rightarrow> True | Some h \<Rightarrow> length a \<le> h)
        \<and> list_all cls a \<and> matches its b)"
proof
  assume "matches ((cls, lo, hi) # its) s"
  then obtain n where n: "lo \<le> n" "n \<le> length s" "case hi of None \<Rightarrow> True | Some h \<Rightarrow> n \<le> h"
      "list_all cls (take n s)" "matches its (drop n s)"
    by auto
  then have "s = take n s @ drop n s" "length (take n s) = n" by simp_all
  with n show "\<exists>a b. s = a @ b \<and> lo \<le> length a \<and> (case hi of None \<Rightarrow> True | Some h \<Rightarrow> length a \<le> h)
        \<and> list_all cls a \<and> matches its b"
    by metis
next
  assume "\<exists>a b. s = a @ b \<and> lo \<le> length a \<and> (case hi of None \<Rightarrow> True | Some h \<Rightarrow> length a \<le> h)
        \<and> list_all cls a \<and> matches its b"
  then obtain a b where ab: "s = a @ b" "lo \<le> length a" "case hi of None \<Rightarrow> True | Some h \<Rightarrow> length a \<le> h"
      "list_all cls a" "matches its b"
    by blast
  then have "length a \<in> set [lo ..< Suc (length s)]" "take (length a) s = a" "drop (length a) s = b"
    by simp_all
  with ab show "matches ((cls, lo, hi) # its) s"
    unfolding matches.simps by (intro bexI[of _ "length a"]) simp_all
qed

lemma single_char:
  "1 \<le> length a \<and> length a \<le> 1 \<and> list_all (\<lambda>c. c = x) a \<longleftrightarrow> a = [x]"
  by (cases a) auto

lemma matches_emailRegex: "matches emailRegex e \<longleftrightarrow> email_shape e"
proof
  let ?i2 = "[(\<lambda>c. c = CHR ''@'', 1, Some 1), (domain_class, 1, None),
              (\<lambda>c. c = CHR ''.'', 1, Some 1), (is_letter, 2, None)]"
  let ?i3 = "[(domain_class, 1, None), (\<lambda>c. c = CHR ''.'', 1, Some 1), (is_letter, 2, None)]"
  let ?i4 = "[(\<lambda>c. c = CHR ''.'', 1, Some 1), (is_letter, 2::nat, None::nat option)]"
  let ?i5 = "[(is_letter, 2::nat, None::nat option)]"
  assume "matches emailRegex e"
  then have "matches ((local_class, 1, None) # ?i2) e"
    by (simp only: emailRegex_def)
  then obtain l r1 where 1: "e = l @ r1" "1 \<le> length l" "list_all local_class l" "matches ?i2 r1"
    unfolding matches_Cons_iff[of _ _ _ ?i2] by blast
  from 1(4) obtain a r2 where 2: "r1 = a @ r2"
      "1 \<le> length a \<and> length a \<le> 1 \<and> list_all (\<lambda>c. c = CHR ''@'') a" "matches ?i3 r2"
    unfolding matches_Cons_iff[of _ _ _ ?i3] option.case by blast
  from 2(3) obtain d r3 where 3: "r2 = d @ r3" "1 \<le> length d" "list_all domain_class d" "matches ?i4 r3"
    unfolding matches_Cons_iff[of _ _ _ ?i4] by blast
  from 3(4) obtain p r4 where 4: "r3 = p @ r4"
      "1 \<le> length p \<and> length p \<le> 1 \<and> list_all (\<lambda>c. c = CHR ''.'') p" "matches ?i5 r4"
    unfolding matches_Cons_iff[of _ _ _ ?i5] option.case by blast
  from 4(3) obtain t r5 where 5: "r4 = t @ r5" "2 \<le> length t" "list_all is_letter t" "matches [] r5"
    unfolding matches_Cons_iff[of _ _ _ "[]"] by blast
  from 5(4) have r5: "r5 = []" by simp
  from 2(2) have a': "a = ''@''" by (simp only: single_char)
  from 4(2) have p': "p = ''.''" by (simp only: single_char)
  from 1(2) 3(2) have ne: "l \<noteq> []" "d \<noteq> []" by auto
  have "e = l @ ''@'' @ d @ ''.'' @ t"
    unfolding 1(1) 2(1) 3(1) 4(1) 5(1) r5 a' p' by simp
  with ne 1(3) 3(3) 5(2) 5(3) show "email_shape e"
    unfolding email_shape_def by blast
next
  let ?i2 = "[(\<lambda>c. c = CHR ''@'', 1, Some 1), (domain_class, 1, None),
              (\<lambda>c. c = CHR ''.'', 1, Some 1), (is_letter, 2, None)]"
  let ?i3 = "[(domain_class, 1, None), (\<lambda>c. c = CHR ''.'', 1, Some 1), (is_letter, 2, None)]"
  let ?i4 = "[(\<lambda>c. c = CHR ''.'', 1, Some 1), (is_letter, 2::nat, None::nat option)]"
  let ?i5 = "[(is_letter, 2::nat, None::nat option)]"
  assume "email_shape e"
  then obtain l d t where e: "e = l @ ''@'' @ d @ ''.'' @ t"
    and l: "l \<noteq> []" "list_all local_class l"
    and d: "d \<noteq> []" "list_all domain_class d"
    and t: "2 \<le> length t" "list_all is_letter t"
    unfolding email_shape_def by blast
  from l d have len: "1 \<le> length l" "1 \<le> length d"
    by (simp_all add: Suc_le_eq)
  have 5: "matches ?i5 t"
    by (rule iffD2[OF matches_Cons_iff], rule exI[of _ t], rule exI[of _ "[]"]) (insert t, simp)
  have 4: "matches ?i4 (''.'' @ t)"
    by (rule iffD2[OF matches_Cons_iff], rule exI[of _ "''.''"], rule exI[of _ t]) (insert 5, simp del: matches.simps)
  have 3: "matches ?i3 (d @ ''.'' @ t)"
    by (rule iffD2[OF matches_Cons_iff], rule exI[of _ d], rule exI[of _ "''.'' @ t"])
       (insert 4 d len, simp del: matches.simps)
  have 2: "matches ?i2 (''@'' @ d @ ''.'' @ t)"
    by (rule iffD2[OF matches_Cons_iff], rule exI[of _ "''@''"], rule exI[of _ "d @ ''.'' @ t"])
       (insert 3, simp del: matches.simps)
  have "matches ((local_class, 1, None) # ?i2) (l @ ''@'' @ d @ ''.'' @ t)"
    by (rule iffD2[OF matches_Cons_iff], rule exI[of _ l], rule exI[of _ "''@'' @ d @ ''.'' @ t"])
       (insert 2 l len, simp del: matches.simps)
  then show "matches emailRegex e"
    by (simp only: emailRegex_def e)
qed

text \<open>
  The matcher against the denotation: a match it finds is a prefix of the text that
  the items denote, and it finds a match whenever some prefix is denoted.
\<close>

lemma first_some_Some: "first_some xs = Some y \<Longrightarrow> Some y \<in> set xs"
  by (induction xs rule: first_some.induct) auto

lemma first_some_map_Some:
  "first_some (map f xs) = Some y \<Longrightarrow> \<exists>x \<in> set xs. f x = Some y"
proof (induction xs)
  case Nil
  then show ?case by simp
next
  case (Cons x xs)
  then show ?case by (cases "f x") auto
qed

lemma first_some_None: "first_some xs = None \<Longrightarrow> x \<in> set xs \<Longrightarrow> x = None"
  by (induction xs rule: first_some.induct) auto

lemma take_takeWhile_all: "n \<le> length (takeWhile P s) \<Longrightarrow> list_all P (take n s)"
proof -
  assume "n \<le> length (takeWhile P s)"
  then have "take n s = take n (takeWhile P s)"
    by (metis append_eq_conv_conj takeWhile_dropWhile_id take_append take_all_iff
        diff_is_0_eq' take_0 append_Nil2)
  moreover have "list_all P (takeWhile P s)"
    by (simp add: list_all_iff) (meson set_takeWhileD)
  ultimately show ?thesis
    by (metis list_all_append append_take_drop_id)
qed

lemma all_take_le_takeWhile:
  "list_all P (take n s) \<Longrightarrow> n \<le> length s \<Longrightarrow> n \<le> length (takeWhile P s)"
proof (induction s arbitrary: n)
  case Nil
  then show ?case by simp
next
  case (Cons c cs)
  then show ?case by (cases n) auto
qed

lemma match_items_sound:
  "match_items its s = Some k \<Longrightarrow> k \<le> length s \<and> matches its (take k s)"
proof (induction its arbitrary: s k)
  case Nil
  then show ?case by simp
next
  case (Cons it its)
  obtain cls lo hi where it: "it = (cls, lo, hi)" by (cases it)
  let ?run = "length (takeWhile cls s)"
  let ?top = "case hi of None \<Rightarrow> ?run | Some h \<Rightarrow> min h ?run"
  from Cons.prems have "first_some (map (\<lambda>n. map_option (\<lambda>k. n + k) (match_items its (drop n s)))
                         (rev [lo ..< Suc ?top])) = Some k"
    by (simp add: it Let_def del: upt_Suc)
  from first_some_map_Some[OF this] obtain n where "n \<in> set (rev [lo ..< Suc ?top])"
    and m: "map_option (\<lambda>k. n + k) (match_items its (drop n s)) = Some k"
    by blast
  then have n: "lo \<le> n" "n \<le> ?top"
    by (simp_all add: less_Suc_eq_le del: upt_Suc)
  from m obtain k' where k': "match_items its (drop n s) = Some k'" "k = n + k'"
    by auto
  from Cons.IH[OF k'(1)] have ih: "k' \<le> length (drop n s)" "matches its (take k' (drop n s))"
    by simp_all
  have top_run: "?top \<le> ?run" by (simp split: option.splits)
  have run_len: "?run \<le> length s" by (simp add: length_takeWhile_le)
  from n top_run run_len have nl: "n \<le> length s" by simp
  with ih(1) k'(2) have kl: "k \<le> length s" by simp
  have hi_ok: "case hi of None \<Rightarrow> True | Some h \<Rightarrow> n \<le> h"
    using n(2) by (simp split: option.splits)
  have cls_ok: "list_all cls (take n s)"
    using n(2) top_run by (intro take_takeWhile_all) simp
  have tk: "take k s = take n s @ take k' (drop n s)"
    unfolding k'(2) by (simp add: take_add)
  have ln: "length (take n s) = n" using nl by simp
  have "matches ((cls, lo, hi) # its) (take k s)"
    by (rule iffD2[OF matches_Cons_iff], rule exI[of _ "take n s"], rule exI[of _ "take k' (drop n s)"])
       (insert tk ln n(1) hi_ok cls_ok ih(2), simp split: option.splits)
  with kl it show ?case by (simp del: matches.simps)
qed

lemma match_items_complete:
  "k \<le> length s \<Longrightarrow> matches its (take k s) \<Longrightarrow> match_items its s \<noteq> None"
proof (induction its arbitrary: s k)
  case Nil
  then show ?case by simp
next
  case (Cons it its)
  obtain cls lo hi where it: "it = (cls, lo, hi)" by (cases it)
  let ?run = "length (takeWhile cls s)"
  let ?top = "case hi of None \<Rightarrow> ?run | Some h \<Rightarrow> min h ?run"
  from Cons.prems(2) obtain a b where ab: "take k s = a @ b" "lo \<le> length a"
      "case hi of None \<Rightarrow> True | Some h \<Rightarrow> length a \<le> h" "list_all cls a" "matches its b"
    unfolding it matches_Cons_iff by blast
  define n where "n = length a"
  from ab(1) Cons.prems(1) have nk: "n \<le> k" and a: "a = take n s" and b: "b = take (k - n) (drop n s)"
    unfolding n_def
    by (metis length_append length_take min.absorb2 le_add1,
        metis append_eq_conv_conj take_take min.absorb1 length_append length_take le_add1 min.absorb2,
        metis append_eq_conv_conj drop_take)
  from nk Cons.prems(1) have nl: "n \<le> length s" by simp
  from ab(4) a nl have "n \<le> ?run"
    by (intro all_take_le_takeWhile) simp_all
  with ab(3) have "n \<le> ?top"
    by (simp add: n_def split: option.splits)
  with ab(2) have mem: "n \<in> set (rev [lo ..< Suc ?top])"
    by (simp add: n_def less_Suc_eq_le del: upt_Suc)
  have "k - n \<le> length (drop n s)" using Cons.prems(1) by simp
  from Cons.IH[OF this] ab(5) b have "match_items its (drop n s) \<noteq> None" by simp
  then have "map_option (\<lambda>k. n + k) (match_items its (drop n s)) \<noteq> None" by simp
  with mem first_some_None[of "map (\<lambda>n. map_option (\<lambda>k. n + k) (match_items its (drop n s)))
                         (rev [lo ..< Suc ?top])" "map_option (\<lambda>k. n + k) (match_items its (drop n s))"]
  have "first_some (map (\<lambda>n. map_option (\<lambda>k. n + k) (match_items its (drop n s)))
                         (rev [lo ..< Suc ?top])) \<noteq> None"
    by (metis (no_types, lifting) image_eqI set_map)
  then show ?case
    by (simp add: it Let_def del: upt_Suc)
qed

text \<open>
  The greedy choice: the matcher takes the greatest number of repetitions of the first
  item for which the rest matches.  For the pattern of the addresses this makes the
  match the longest prefix of the shape of an address.
\<close>

lemma first_some_rev_upt:
  "first_some (map f (rev [lo ..< Suc m])) = Some y \<Longrightarrow>
     \<exists>n. lo \<le> n \<and> n \<le> m \<and> f n = Some y \<and> (\<forall>n'. n < n' \<and> n' \<le> m \<longrightarrow> f n' = None)"
proof (induction m)
  case 0
  then show ?case by (cases "lo = 0"; cases "f 0") auto
next
  case (Suc m)
  show ?case
  proof (cases "lo \<le> Suc m")
    case False
    with Suc.prems show ?thesis by simp
  next
    case True
    then have u: "rev [lo ..< Suc (Suc m)] = Suc m # rev [lo ..< Suc m]"
      by simp
    show ?thesis
    proof (cases "f (Suc m)")
      case (Some z)
      with Suc.prems u have "f (Suc m) = Some y" by simp
      with True show ?thesis by (intro exI[of _ "Suc m"]) auto
    next
      case None
      with Suc.prems u have "first_some (map f (rev [lo ..< Suc m])) = Some y" by simp
      from Suc.IH[OF this] obtain n where n: "lo \<le> n" "n \<le> m" "f n = Some y"
        "\<forall>n'. n < n' \<and> n' \<le> m \<longrightarrow> f n' = None" by blast
      have "\<forall>n'. n < n' \<and> n' \<le> Suc m \<longrightarrow> f n' = None"
      proof (intro allI impI)
        fix n' assume a: "n < n' \<and> n' \<le> Suc m"
        show "f n' = None"
        proof (cases "n' = Suc m")
          case True
          with None show ?thesis by simp
        next
          case False
          with a have "n < n' \<and> n' \<le> m" by simp
          with n(4) show ?thesis by blast
        qed
      qed
      with n show ?thesis by (intro exI[of _ n]) simp
    qed
  qed
qed

lemma match_items_greedy:
  assumes "match_items ((cls, lo, hi) # its) s = Some k"
  shows "\<exists>n k'. k = n + k' \<and> lo \<le> n
     \<and> n \<le> (case hi of None \<Rightarrow> length (takeWhile cls s) | Some h \<Rightarrow> min h (length (takeWhile cls s)))
     \<and> match_items its (drop n s) = Some k'
     \<and> (\<forall>n'. n < n' \<and> n' \<le> (case hi of None \<Rightarrow> length (takeWhile cls s)
                                    | Some h \<Rightarrow> min h (length (takeWhile cls s)))
            \<longrightarrow> match_items its (drop n' s) = None)"
proof -
  let ?top = "case hi of None \<Rightarrow> length (takeWhile cls s) | Some h \<Rightarrow> min h (length (takeWhile cls s))"
  let ?f = "\<lambda>n. map_option (\<lambda>k. n + k) (match_items its (drop n s))"
  from assms have "first_some (map ?f (rev [lo ..< Suc ?top])) = Some k"
    by (simp add: Let_def del: upt_Suc)
  from first_some_rev_upt[OF this] obtain n where n: "lo \<le> n" "n \<le> ?top" "?f n = Some k"
    "\<forall>n'. n < n' \<and> n' \<le> ?top \<longrightarrow> ?f n' = None" by blast
  from n(3) obtain k' where k': "match_items its (drop n s) = Some k'" "k = n + k'"
    by auto
  from n(4) have "\<forall>n'. n < n' \<and> n' \<le> ?top \<longrightarrow> match_items its (drop n' s) = None"
    by simp
  with n(1,2) k' show ?thesis by blast
qed

lemma takeWhile_nonempty:
  "1 \<le> length (takeWhile P u) \<Longrightarrow> u \<noteq> [] \<and> P (hd u)"
  by (cases u) (auto split: if_splits)

lemma nth_takeWhile_holds:
  "n \<le> length (takeWhile P s) \<Longrightarrow> i < n \<Longrightarrow> P (s ! i)"
  by (metis less_le_trans nth_mem set_takeWhileD takeWhile_nth)

lemma tld_match:
  assumes "match_items tld_items u = Some k"
  shows "u \<noteq> [] \<and> hd u = CHR ''.'' \<and> k = 1 + length (takeWhile is_letter (drop 1 u))"
proof -
  from assms have "match_items ((\<lambda>c. c = CHR ''.'', 1, Some 1) # [(is_letter, 2, None)]) u = Some k"
    by (simp only: tld_items_def)
  from match_items_greedy[OF this] obtain n4 k4 where 4: "k = n4 + k4" "1 \<le> n4"
    "n4 \<le> min 1 (length (takeWhile (\<lambda>c. c = CHR ''.'') u))"
    "match_items [(is_letter, 2, None)] (drop n4 u) = Some k4"
    by auto
  from 4(2,3) have n4: "n4 = 1" and "1 \<le> length (takeWhile (\<lambda>c. c = CHR ''.'') u)"
    by simp_all
  from takeWhile_nonempty[OF this(2)] have u: "u \<noteq> []" "hd u = CHR ''.''" by simp_all
  from 4(4) n4 have "match_items ((is_letter, 2, None) # []) (drop 1 u) = Some k4" by simp
  from match_items_greedy[OF this] obtain n5 k5 where 5: "k4 = n5 + k5"
    "n5 \<le> length (takeWhile is_letter (drop 1 u))"
    "match_items [] (drop n5 (drop 1 u)) = Some k5"
    "\<forall>n'. n5 < n' \<and> n' \<le> length (takeWhile is_letter (drop 1 u))
        \<longrightarrow> match_items [] (drop n' (drop 1 u)) = None"
    by auto
  from 5(3) have k5: "k5 = 0" by simp
  have "n5 = length (takeWhile is_letter (drop 1 u))"
  proof (rule ccontr)
    assume "n5 \<noteq> length (takeWhile is_letter (drop 1 u))"
    with 5(2) have "n5 < length (takeWhile is_letter (drop 1 u))" by simp
    with 5(4) have "match_items [] (drop (length (takeWhile is_letter (drop 1 u))) (drop 1 u)) = None"
      by blast
    then show False by simp
  qed
  with 4(1) n4 5(1) k5 u show ?thesis by simp
qed

lemma email_match_found:
  assumes "match_items emailRegex s = Some k"
  shows "\<exists>n1 n3.
       n1 \<le> length (takeWhile local_class s) \<and> n1 < length s \<and> s ! n1 = CHR ''@''
     \<and> n3 \<le> length (takeWhile domain_class (drop (Suc n1) s))
     \<and> n3 < length (drop (Suc n1) s) \<and> drop (Suc n1) s ! n3 = CHR ''.''
     \<and> k = n1 + 1 + n3 + 1 + length (takeWhile is_letter (drop (Suc n3) (drop (Suc n1) s)))
     \<and> (\<forall>n'. n3 < n' \<and> n' \<le> length (takeWhile domain_class (drop (Suc n1) s))
            \<longrightarrow> match_items tld_items (drop n' (drop (Suc n1) s)) = None)"
proof -
  let ?i3 = "(domain_class, 1, None) # tld_items"
  let ?i2 = "(\<lambda>c. c = CHR ''@'', 1, Some 1) # ?i3"
  from assms have "match_items ((local_class, 1, None) # ?i2) s = Some k"
    by (simp only: emailRegex_def tld_items_def)
  from match_items_greedy[OF this] obtain n1 k1 where 1: "k = n1 + k1"
    "n1 \<le> length (takeWhile local_class s)" "match_items ?i2 (drop n1 s) = Some k1"
    by auto
  from match_items_greedy[OF 1(3)] obtain n2 k2 where 2: "k1 = n2 + k2" "1 \<le> n2"
    "n2 \<le> min 1 (length (takeWhile (\<lambda>c. c = CHR ''@'') (drop n1 s)))"
    "match_items ?i3 (drop n2 (drop n1 s)) = Some k2"
    by auto
  from 2(2,3) have n2: "n2 = 1" and "1 \<le> length (takeWhile (\<lambda>c. c = CHR ''@'') (drop n1 s))"
    by simp_all
  from takeWhile_nonempty[OF this(2)] have at: "drop n1 s \<noteq> []" "hd (drop n1 s) = CHR ''@''"
    by simp_all
  then have n1: "n1 < length s" "s ! n1 = CHR ''@''"
    by (simp_all add: hd_drop_conv_nth)
  let ?r = "drop (Suc n1) s"
  from 2(4) n2 have "match_items ?i3 ?r = Some k2" by simp
  from match_items_greedy[OF this] obtain n3 k3 where 3: "k2 = n3 + k3"
    "n3 \<le> length (takeWhile domain_class ?r)"
    "match_items tld_items (drop n3 ?r) = Some k3"
    "\<forall>n'. n3 < n' \<and> n' \<le> length (takeWhile domain_class ?r)
        \<longrightarrow> match_items tld_items (drop n' ?r) = None"
    by auto
  from tld_match[OF 3(3)] have t: "drop n3 ?r \<noteq> []" "hd (drop n3 ?r) = CHR ''.''"
    "k3 = 1 + length (takeWhile is_letter (drop 1 (drop n3 ?r)))"
    by simp_all
  from t(1) have n3l: "n3 < length ?r"
    by (cases "n3 < length ?r") simp_all
  from hd_drop_conv_nth[OF n3l] t(2) have n3d: "?r ! n3 = CHR ''.''"
    by simp
  note n3 = n3l n3d
  have "drop 1 (drop n3 ?r) = drop (Suc n3) ?r" by simp
  with t(3) have k3: "k3 = 1 + length (takeWhile is_letter (drop (Suc n3) ?r))" by simp
  from 1(1) 2(1) n2 3(1) k3
  have "k = n1 + 1 + n3 + 1 + length (takeWhile is_letter (drop (Suc n3) ?r))" by simp
  with 1(2) n1 3(2) n3 3(4) show ?thesis by blast
qed

lemma tld_matches:
  assumes "2 \<le> length t" and "list_all is_letter t"
  shows "matches tld_items (CHR ''.'' # t)"
proof -
  have 5: "matches [(is_letter, 2, None)] t"
    by (rule iffD2[OF matches_Cons_iff], rule exI[of _ t], rule exI[of _ "[]"])
       (insert assms, simp)
  have "matches ((\<lambda>c. c = CHR ''.'', 1, Some 1) # [(is_letter, 2, None)]) (''.'' @ t)"
    by (rule iffD2[OF matches_Cons_iff], rule exI[of _ "''.''"], rule exI[of _ t])
       (insert 5, simp del: matches.simps)
  then show ?thesis by (simp add: tld_items_def del: matches.simps)
qed

lemma length_takeWhile_append_ge:
  "list_all P d \<Longrightarrow> length d \<le> length (takeWhile P (d @ x))"
  by (simp add: list_all_iff takeWhile_append2)

lemma not_local_at: "\<not> local_class CHR ''@''"
  by (simp add: local_class_def is_letter_def is_digit_def in_range_def)

lemma not_letter_dot: "\<not> is_letter CHR ''.''"
  by (simp add: is_letter_def in_range_def)

lemma email_match_longest:
  assumes m: "match_items emailRegex s = Some k" and s: "s = e @ post" and e: "email_shape e"
  shows "length e \<le> k"
proof -
  from e obtain l d t where e': "e = l @ ''@'' @ d @ ''.'' @ t"
    and l: "l \<noteq> []" "list_all local_class l"
    and d: "d \<noteq> []" "list_all domain_class d"
    and t: "2 \<le> length t" "list_all is_letter t"
    unfolding email_shape_def by blast
  have s': "s = l @ CHR ''@'' # d @ CHR ''.'' # t @ post"
    using s e' by simp
  from email_match_found[OF m] obtain n1 n3 where
    f1: "n1 \<le> length (takeWhile local_class s)" "n1 < length s" "s ! n1 = CHR ''@''"
    and f3: "n3 \<le> length (takeWhile domain_class (drop (Suc n1) s))"
      "n3 < length (drop (Suc n1) s)" "drop (Suc n1) s ! n3 = CHR ''.''"
    and k: "k = n1 + 1 + n3 + 1 + length (takeWhile is_letter (drop (Suc n3) (drop (Suc n1) s)))"
    and mx: "\<forall>n'. n3 < n' \<and> n' \<le> length (takeWhile domain_class (drop (Suc n1) s))
            \<longrightarrow> match_items tld_items (drop n' (drop (Suc n1) s)) = None"
    by blast
  have n1: "n1 = length l"
  proof (rule ccontr)
    assume "n1 \<noteq> length l"
    then consider "n1 < length l" | "length l < n1" by linarith
    then show False
    proof cases
      case 1
      then have "s ! n1 = l ! n1" by (simp add: s' nth_append)
      moreover from 1 l(2) have "local_class (l ! n1)" by (simp add: list_all_length)
      ultimately show False using f1(3) not_local_at by simp
    next
      case 2
      from nth_takeWhile_holds[OF f1(1) 2] have "local_class (s ! length l)" .
      moreover have "s ! length l = CHR ''@''" by (simp add: s')
      ultimately show False using not_local_at by simp
    qed
  qed
  let ?r = "drop (Suc n1) s"
  have r: "?r = d @ CHR ''.'' # t @ post"
    by (simp add: n1 s')
  have dl: "length d \<le> length (takeWhile domain_class ?r)"
    unfolding r by (rule length_takeWhile_append_ge[OF d(2)])
  have dr: "drop (length d) ?r = CHR ''.'' # t @ post"
    unfolding r by simp
  have "match_items tld_items (drop (length d) ?r) \<noteq> None"
  proof (rule match_items_complete[of "Suc (length t)"])
    show "Suc (length t) \<le> length (drop (length d) ?r)" unfolding dr by simp
    have "take (Suc (length t)) (drop (length d) ?r) = CHR ''.'' # t" unfolding dr by simp
    with tld_matches[OF t] show "matches tld_items (take (Suc (length t)) (drop (length d) ?r))"
      by simp
  qed
  with mx dl have le: "length d \<le> n3"
    by (meson not_le)
  have el: "length e = length l + 1 + length d + 1 + length t"
    by (simp add: e')
  show ?thesis
  proof (cases "length d = n3")
    case True
    have "drop (Suc n3) ?r = t @ post"
      unfolding r True[symmetric] by simp
    then have "length t \<le> length (takeWhile is_letter (drop (Suc n3) ?r))"
      using length_takeWhile_append_ge[OF t(2), of post] by simp
    with k n1 True el show ?thesis by simp
  next
    case False
    with le have lt: "length d < n3" by simp
    have ge: "length d + 1 + length t \<le> n3"
    proof (rule ccontr)
      assume "\<not> length d + 1 + length t \<le> n3"
      with lt have i: "n3 - length d - 1 < length t" "n3 = length d + 1 + (n3 - length d - 1)"
        by simp_all
      have "?r ! n3 = (d @ CHR ''.'' # t @ post) ! (length d + 1 + (n3 - length d - 1))"
        using r i(2) by simp
      also have "\<dots> = t ! (n3 - length d - 1)"
        using i(1) by (simp add: nth_append)
      finally have "?r ! n3 = t ! (n3 - length d - 1)" .
      moreover from i(1) t(2) have "is_letter (t ! (n3 - length d - 1))"
        by (simp add: list_all_length)
      ultimately show False using f3(3) not_letter_dot by simp
    qed
    with k n1 el show ?thesis by simp
  qed
qed

text \<open>
  The global search: every match reported is a substring of the text that the items
  denote, and a text with such a substring has a match reported.
\<close>

lemma match_all_sound:
  "e \<in> set (match_all its s) \<Longrightarrow> matches its e \<and> (\<exists>pre post. s = pre @ e @ post)"
proof (induction its s rule: match_all.induct)
  case (1 its s)
  show ?case
  proof (cases "match_items its s")
    case None
    with "1.prems" have ne: "s \<noteq> []" and e: "e \<in> set (match_all its (drop 1 s))"
      by (auto simp add: match_all.simps[of its s] split: if_splits)
    from "1.IH"(1)[OF None ne e] obtain pre post where
      m: "matches its e" and d: "drop 1 s = pre @ e @ post" by blast
    have "s = (take 1 s @ pre) @ e @ post"
      using d by (metis append_take_drop_id append_assoc)
    with m show ?thesis by blast
  next
    case (Some k)
    from match_items_sound[OF Some] have k: "k \<le> length s" "matches its (take k s)" by simp_all
    from "1.prems" Some have "e = take k s \<or> (s \<noteq> [] \<and> e \<in> set (match_all its (drop (max k 1) s)))"
      by (auto simp add: match_all.simps[of its s] split: if_splits)
    then show ?thesis
    proof
      assume "e = take k s"
      then have "s = [] @ e @ drop k s" by simp
      with k \<open>e = take k s\<close> show ?thesis by blast
    next
      assume a: "s \<noteq> [] \<and> e \<in> set (match_all its (drop (max k 1) s))"
      then have ne: "s \<noteq> []" and e: "e \<in> set (match_all its (drop (max k 1) s))" by simp_all
      from "1.IH"(2)[OF Some ne e] obtain pre post where
        m: "matches its e" and d: "drop (max k 1) s = pre @ e @ post" by blast
      have "s = (take (max k 1) s @ pre) @ e @ post"
        using d by (metis append_take_drop_id append_assoc)
      with m show ?thesis by blast
    qed
  qed
qed

lemma match_all_complete:
  "s = pre @ e @ post \<Longrightarrow> matches its e \<Longrightarrow> match_all its s \<noteq> []"
proof (induction pre arbitrary: s)
  case Nil
  then have "take (length e) s = e" "length e \<le> length s" by simp_all
  with Nil.prems(2) have "match_items its s \<noteq> None"
    by (intro match_items_complete[of "length e"]) simp_all
  then show ?case
    by (auto simp add: match_all.simps[of its s])
next
  case (Cons c pre)
  show ?case
  proof (cases "match_items its s")
    case (Some k)
    then show ?thesis by (simp add: match_all.simps[of its s])
  next
    case None
    from Cons.prems(1) have "drop 1 s = pre @ e @ post" "s \<noteq> []" by simp_all
    with Cons.IH[OF _ Cons.prems(2)] None show ?thesis
      by (simp add: match_all.simps[of its s])
  qed
qed

text \<open>
  The result of the global search, step by step: it is empty exactly when the text has
  no substring that the items denote; otherwise its first match stands after a part
  of the text in which no match starts, and the later matches are those of the text
  after the first match.
\<close>

lemma match_all_Nil_iff:
  "match_all its s = [] \<longleftrightarrow> \<not> (\<exists>pre e post. s = pre @ e @ post \<and> matches its e)"
proof
  assume "match_all its s = []"
  then show "\<not> (\<exists>pre e post. s = pre @ e @ post \<and> matches its e)"
    using match_all_complete by blast
next
  assume a: "\<not> (\<exists>pre e post. s = pre @ e @ post \<and> matches its e)"
  show "match_all its s = []"
  proof (rule ccontr)
    assume "match_all its s \<noteq> []"
    then obtain e where "e \<in> set (match_all its s)"
      by (cases "match_all its s") auto
    from match_all_sound[OF this] a show False by blast
  qed
qed

lemma match_all_Cons:
  "match_all its s = m # rest \<Longrightarrow>
     \<exists>g tail. s = g @ m @ tail
       \<and> (\<forall>i < length g. match_items its (drop i s) = None)
       \<and> match_items its (m @ tail) = Some (length m)
       \<and> rest = (if m @ tail = [] then [] else match_all its (drop (max (length m) 1) (m @ tail)))"
proof (induction its s rule: match_all.induct)
  case (1 its s)
  show ?case
  proof (cases "match_items its s")
    case None
    with "1.prems" have ne: "s \<noteq> []" and r: "match_all its (drop 1 s) = m # rest"
      by (auto simp add: match_all.simps[of its s] split: if_splits)
    from "1.IH"(1)[OF None ne r] obtain g tail where
      g: "drop 1 s = g @ m @ tail"
      "\<forall>i < length g. match_items its (drop i (drop 1 s)) = None"
      "match_items its (m @ tail) = Some (length m)"
      "rest = (if m @ tail = [] then [] else match_all its (drop (max (length m) 1) (m @ tail)))"
      by blast
    from ne g(1) have s: "s = (hd s # g) @ m @ tail"
      by (cases s) simp_all
    have "\<forall>i < length (hd s # g). match_items its (drop i s) = None"
    proof (intro allI impI)
      fix i assume i: "i < length (hd s # g)"
      show "match_items its (drop i s) = None"
      proof (cases i)
        case 0
        with None show ?thesis by simp
      next
        case (Suc j)
        with i have "j < length g" by simp
        with g(2) have "match_items its (drop j (drop 1 s)) = None" by blast
        with Suc show ?thesis by simp
      qed
    qed
    with s g(3,4) show ?thesis by blast
  next
    case (Some k)
    from match_items_sound[OF Some] have k: "k \<le> length s" by simp
    from "1.prems" Some have m: "m = take k s"
      and r: "rest = (if s = [] then [] else match_all its (drop (max k 1) s))"
      by (simp_all add: match_all.simps[of its s])
    from k m have lm: "length m = k" by simp
    have s: "s = [] @ m @ drop k s" by (simp add: m)
    have ms: "m @ drop k s = s" by (simp add: m)
    have "\<forall>i < length ([]::string). match_items its (drop i s) = None" by simp
    moreover have "match_items its (m @ drop k s) = Some (length m)"
      unfolding ms lm by (rule Some)
    moreover have "rest = (if m @ drop k s = [] then []
        else match_all its (drop (max (length m) 1) (m @ drop k s)))"
      unfolding ms lm by (rule r)
    ultimately show ?thesis using s by blast
  qed
qed

lemma email_shape_nonempty: "email_shape e \<Longrightarrow> e \<noteq> []"
  by (auto simp add: email_shape_def)

lemma email_matches_Cons:
  assumes "match_all emailRegex doc = m # rest"
  shows "\<exists>g tail. doc = g @ m @ tail \<and> email_shape m
     \<and> (\<forall>p e q. doc = p @ e @ q \<and> email_shape e \<longrightarrow> length g \<le> length p)
     \<and> (\<forall>e q. m @ tail = e @ q \<and> email_shape e \<longrightarrow> length e \<le> length m)
     \<and> rest = match_all emailRegex tail"
proof -
  from match_all_Cons[OF assms] obtain g tail where
    d: "doc = g @ m @ tail"
    and none: "\<forall>i < length g. match_items emailRegex (drop i doc) = None"
    and some: "match_items emailRegex (m @ tail) = Some (length m)"
    and rest: "rest = (if m @ tail = [] then []
        else match_all emailRegex (drop (max (length m) 1) (m @ tail)))"
    by blast
  from match_items_sound[OF some] have shape: "email_shape m"
    by (simp add: matches_emailRegex)
  have left: "length g \<le> length p" if "doc = p @ e @ q" "email_shape e" for p e q
  proof (rule ccontr)
    assume "\<not> length g \<le> length p"
    with none have "match_items emailRegex (drop (length p) doc) = None" by simp
    then have n: "match_items emailRegex (e @ q) = None" using that(1) by simp
    have "match_items emailRegex (e @ q) \<noteq> None"
      by (rule match_items_complete[of "length e"]) (simp_all add: matches_emailRegex that(2))
    with n show False by simp
  qed
  have long: "length e \<le> length m" if "m @ tail = e @ q" "email_shape e" for e q
    using email_match_longest[OF some that] .
  from email_shape_nonempty[OF shape] obtain c cs where "m = c # cs"
    by (cases m) auto
  then have ne: "m @ tail \<noteq> []" and mx: "max (length m) 1 = length m"
    by simp_all
  have "rest = match_all emailRegex (drop (max (length m) 1) (m @ tail))"
    using rest ne by (simp only: if_False)
  then have r: "rest = match_all emailRegex tail"
    unfolding mx by simp
  from d shape left long r show ?thesis by blast
qed

lemma set_fold_insert:
  "set (fold (\<lambda>x acc. if x \<in> set acc then acc else acc @ [x]) xs acc) = set acc \<union> set xs"
  by (induction xs arbitrary: acc) auto

lemma distinct_fold_insert:
  "distinct acc \<Longrightarrow> distinct (fold (\<lambda>x acc. if x \<in> set acc then acc else acc @ [x]) xs acc)"
  by (induction xs arbitrary: acc) auto

lemma set_unique: "set (unique xs) = set xs"
  by (simp add: unique_def set_fold_insert)

lemma distinct_unique: "distinct (unique xs)"
  by (simp add: unique_def distinct_fold_insert)

lemma unique_Nil_iff: "unique xs = [] \<longleftrightarrow> xs = []"
  by (metis set_unique set_empty)

lemma extractEmails_example:
  "extractEmails ''contact me at a.b+c@example.co.uk or spam@x'' = [''a.b+c@example.co.uk'']"
  by code_simp

text \<open>
  Claim C6.  The addresses extracted from a document are the matches of the pattern in
  the document, each of them once.  The matches are determined by the document: there
  is none exactly when the document has no substring of the shape local part, \<open>@\<close>,
  domain, dot, top-level domain (local part over letters, digits and \<open>._%+-\<close>; domain
  over letters, digits, dot and hyphen; 2 letters or more, of either case, at the
  end); otherwise the first match is the longest substring of this shape at the
  leftmost place where one starts, and the further matches are those of the rest of
  the document after it.  So every match of the scan is returned, each is a substring
  of the document of the shape of an address, and there are no duplicates.  The
  document of the specification yields exactly \<open>a.b+c@example.co.uk\<close>.  A page that is
  fetched as a text yields the addresses of the text, and a failed fetch the empty
  list.
\<close>

theorem extractEmails_matching_substrings:
  "distinct (extractEmails doc)
   \<and> set (extractEmails doc) = set (match_all emailRegex doc)
   \<and> (\<forall>e. e \<in> set (extractEmails doc) \<longrightarrow> email_shape e \<and> (\<exists>pre post. doc = pre @ e @ post))
   \<and> ((\<exists>pre e post. doc = pre @ e @ post \<and> email_shape e) \<longrightarrow> extractEmails doc \<noteq> [])
   \<and> (match_all emailRegex doc = [] \<longleftrightarrow> \<not> (\<exists>pre e post. doc = pre @ e @ post \<and> email_shape e))
   \<and> (\<forall>m rest. match_all emailRegex doc = m # rest \<longrightarrow>
         (\<exists>g tail. doc = g @ m @ tail \<and> email_shape m
            \<and> (\<forall>p e q. doc = p @ e @ q \<and> email_shape e \<longrightarrow> length g \<le> length p)
            \<and> (\<forall>e q. m @ tail = e @ q \<and> email_shape e \<longrightarrow> length e \<le> length m)
            \<and> rest = match_all emailRegex tail))
   \<and> extractEmails ''contact me at a.b+c@example.co.uk or spam@x'' = [''a.b+c@example.co.uk'']
   \<and> (web url = Fetched (JStr doc) \<longrightarrow> scrapeEmailsFromWebsite web url = extractEmails doc)
   \<and> (web url = FetchFailed \<longrightarrow> scrapeEmailsFromWebsite web url = [])"
proof -
  have 1: "distinct (extractEmails doc)"
    by (simp add: extractEmails_def distinct_unique)
  have 2: "set (extractEmails doc) = set (match_all emailRegex doc)"
    by (simp add: extractEmails_def set_unique)
  have 3: "\<forall>e. e \<in> set (extractEmails doc) \<longrightarrow> email_shape e \<and> (\<exists>pre post. doc = pre @ e @ post)"
    using match_all_sound[of _ emailRegex doc]
    by (simp add: 2 matches_emailRegex)
  have 5: "match_all emailRegex doc = [] \<longleftrightarrow> \<not> (\<exists>pre e post. doc = pre @ e @ post \<and> email_shape e)"
    by (simp only: match_all_Nil_iff matches_emailRegex)
  have 4: "(\<exists>pre e post. doc = pre @ e @ post \<and> email_shape e) \<longrightarrow> extractEmails doc \<noteq> []"
    using 5 by (simp add: extractEmails_def unique_Nil_iff)
  have 6: "\<forall>m rest. match_all emailRegex doc = m # rest \<longrightarrow>
         (\<exists>g tail. doc = g @ m @ tail \<and> email_shape m
            \<and> (\<forall>p e q. doc = p @ e @ q \<and> email_shape e \<longrightarrow> length g \<le> length p)
            \<and> (\<forall>e q. m @ tail = e @ q \<and> email_shape e \<longrightarrow> length e \<le> length m)
            \<and> rest = match_all emailRegex tail)"
    using email_matches_Cons[of doc] by blast
  have 7: "extractEmails ''contact me at a.b+c@example.co.uk or spam@x'' = [''a.b+c@example.co.uk'']"
    by (rule extractEmails_example)
  have 8: "web url = Fetched (JStr doc) \<longrightarrow> scrapeEmailsFromWebsite web url = extractEmails doc"
    by (simp add: scrapeEmailsFromWebsite_def)
  have 9: "web url = FetchFailed \<longrightarrow> scrapeEmailsFromWebsite web url = []"
    by (simp add: scrapeEmailsFromWebsite_def)
  from 1 2 3 4 5 6 7 8 9 show ?thesis by (intro conjI)
qed

theorem extractEmails_matching_substrings_witness:
  "extractEmails ''write to a@b.co or a@b.co'' = [''a@b.co'']
   \<and> email_shape ''a@b.co''
   \<and> extractEmails ''write to a@b.co or a@b.co'' \<noteq> []
   \<and> scrapeEmailsFromWebsite page_web (JStr ''http://acme.example'') = [''a@b.co'']
   \<and> scrapeEmailsFromWebsite offline_web (JStr ''http://acme.example'') = []
   \<and> set (extractEmails ''x a@b.com, a@b.com c@d.org.'') = {''a@b.com'', ''c@d.org''}
   \<and> distinct (extractEmails ''x a@b.com, a@b.com c@d.org.'')
   \<and> (\<exists>g tail. ''x a@b.com, a@b.com c@d.org.'' = g @ ''a@b.com'' @ tail
         \<and> match_all emailRegex tail = [''a@b.com'', ''c@d.org''])"
proof -
  let ?doc = "''write to a@b.co or a@b.co''"
  let ?url = "JStr ''http://acme.example''"
  let ?two = "''x a@b.com, a@b.com c@d.org.''"
  have x: "extractEmails ?doc = [''a@b.co'']"
    by code_simp
  then have m: "''a@b.co'' \<in> set (extractEmails ?doc)"
    by simp
  note main = extractEmails_matching_substrings[of ?doc page_web ?url]
  from main have "\<forall>e. e \<in> set (extractEmails ?doc) \<longrightarrow>
      email_shape e \<and> (\<exists>pre post. ?doc = pre @ e @ post)"
    by (elim conjE)
  with m have s: "email_shape ''a@b.co''"
    and "\<exists>pre post. ?doc = pre @ ''a@b.co'' @ post"
    by blast+
  with s have "\<exists>pre e post. ?doc = pre @ e @ post \<and> email_shape e"
    by blast
  with main have ne: "extractEmails ?doc \<noteq> []"
    by blast
  have "page_web ?url = Fetched (JStr ?doc)"
    by (simp add: page_web_def)
  with main have p: "scrapeEmailsFromWebsite page_web ?url = [''a@b.co'']"
    unfolding x by blast
  have "offline_web ?url = FetchFailed"
    by (simp add: offline_web_def)
  with extractEmails_matching_substrings[of _ offline_web ?url]
  have f: "scrapeEmailsFromWebsite offline_web ?url = []"
    by blast
  have all: "match_all emailRegex ?two = [''a@b.com'', ''a@b.com'', ''c@d.org'']"
    by code_simp
  note second = extractEmails_matching_substrings[of ?two page_web ?url]
  from second have "set (extractEmails ?two) = set (match_all emailRegex ?two)"
    by (elim conjE)
  then have st: "set (extractEmails ?two) = {''a@b.com'', ''c@d.org''}"
    unfolding all by simp
  from second have di: "distinct (extractEmails ?two)"
    by (elim conjE)
  from second have "\<forall>m rest. match_all emailRegex ?two = m # rest \<longrightarrow>
         (\<exists>g tail. ?two = g @ m @ tail \<and> email_shape m
            \<and> (\<forall>p e q. ?two = p @ e @ q \<and> email_shape e \<longrightarrow> length g \<le> length p)
            \<and> (\<forall>e q. m @ tail = e @ q \<and> email_shape e \<longrightarrow> length e \<le> length m)
            \<and> rest = match_all emailRegex tail)"
    by (elim conjE)
  with all have ex: "\<exists>g tail. ?two = g @ ''a@b.com'' @ tail
         \<and> match_all emailRegex tail = [''a@b.com'', ''c@d.org'']"
    by (metis (no_types, lifting))
  from x s ne p f st di ex show ?thesis by (intro conjI)
qed

end
